theory Spec2Isabelle
  imports Complex_Main "HOL-Library.Multiset"
begin

section \<open>Python values and failures\<close>

text \<open>
  Python integers are unbounded: they are \<^typ>\<open>int\<close>.  Lengths and list positions are
  \<^typ>\<open>nat\<close>.  Every \<^verbatim>\<open>raise\<close> and failed \<^verbatim>\<open>assert\<close> of the source is a value
  \<open>Inl e\<close> of the result type \<open>py_error + 'a\<close>.
\<close>

datatype py_error =
  AssertionError | ValueError | KeyError | IndexError | RuntimeError | ZeroDivisionError

definition bind_err :: "py_error + 'a \<Rightarrow> ('a \<Rightarrow> py_error + 'b) \<Rightarrow> py_error + 'b" where
  "bind_err r f = (case r of Inl e \<Rightarrow> Inl e | Inr v \<Rightarrow> f v)"

text \<open>\<^verbatim>\<open>xs.index(x)\<close>: the first position of \<open>x\<close>, ValueError when absent.\<close>

fun index_of :: "'a list \<Rightarrow> 'a \<Rightarrow> py_error + nat" where
  "index_of [] x = Inl ValueError"
| "index_of (y # ys) x =
     (if y = x then Inr 0
      else (case index_of ys x of Inl e \<Rightarrow> Inl e | Inr i \<Rightarrow> Inr (Suc i)))"

text \<open>
  \<^verbatim>\<open>xs[st:ed]\<close> with Python's slice rules: a negative bound counts from the end, and
  both bounds are clamped into \<open>0..len(xs)\<close>.
\<close>

definition slice_bound :: "nat \<Rightarrow> int \<Rightarrow> nat" where
  "slice_bound n i = (if i < 0 then nat (max 0 (int n + i)) else min n (nat i))"

definition py_slice :: "'a list \<Rightarrow> int \<Rightarrow> int \<Rightarrow> 'a list" where
  "py_slice xs st ed =
     (let lo = slice_bound (length xs) st; hi = slice_bound (length xs) ed
      in take (hi - lo) (drop lo xs))"

section \<open>Span windowing (\<^verbatim>\<open>ChengyuCALODataset.get_ids_and_lens\<close>)\<close>

text \<open>
  The window computation of one loop iteration of \<^verbatim>\<open>get_ids_and_lens\<close>
  (affection.py, lines 73--86), with its closing assertion:
  \<^verbatim>\<open>
  half_length = self.max_txt_len // 2
  if position < half_length:  # cut at tail
      st = 0
      ed = min(len(input_ids) + 1, self.max_txt_len - 2)
  elif len(input_ids) - position < half_length:  # cut at head
      ed = len(input_ids)
      st = max(0, ed - (self.max_txt_len - 2))
  else:  # cut at both sides
      st = position - (half_length - 2)
      ed = position + half_length
  assert ed - st <= self.max_txt_len - 2
  \<close>
  Python's \<^verbatim>\<open>//\<close> rounds towards minus infinity, as \<open>div\<close> on \<^typ>\<open>int\<close> does.
\<close>

definition get_st_ed :: "int list \<Rightarrow> int \<Rightarrow> int \<Rightarrow> py_error + (int \<times> int)" where
  "get_st_ed input_ids position max_txt_len =
     (let half_length = max_txt_len div 2;
          len = int (length input_ids);
          (st, ed) =
            (if position < half_length
             then (0, min (len + 1) (max_txt_len - 2))
             else if len - position < half_length
             then (max 0 (len - (max_txt_len - 2)), len)
             else (position - (half_length - 2), position + half_length))
      in if ed - st \<le> max_txt_len - 2 then Inr (st, ed) else Inl AssertionError)"

text \<open>The contract of section 4.1 of the specification, as a predicate on a window.\<close>

definition window_ok :: "int \<Rightarrow> int \<Rightarrow> int \<Rightarrow> int \<times> int \<Rightarrow> bool" where
  "window_ok len position max_txt_len w =
     (0 \<le> fst w \<and> fst w \<le> position \<and> position < snd w \<and> snd w \<le> len + 1
      \<and> snd w - fst w \<le> max_txt_len - 2)"

section \<open>Candidate index (\<^verbatim>\<open>__init__\<close> and \<^verbatim>\<open>__getitem__\<close>)\<close>

text \<open>
  \<^verbatim>\<open>
  if split == 'train':
      self.enlarged_candidates = [i for i in range(opts.len_idiom_vocab) if i in self.filtered]
      opts.enlarged_candidates = self.enlarged_candidates
  else:
      self.enlarged_candidates = opts.enlarged_candidates
  \<close>
\<close>

definition init_enlarged_candidates :: "bool \<Rightarrow> nat \<Rightarrow> int list \<Rightarrow> int list \<Rightarrow> int list" where
  "init_enlarged_candidates is_train len_idiom_vocab filtered opts_enlarged_candidates =
     (if is_train then filter (\<lambda>i. i \<in> set filtered) (map int [0..<len_idiom_vocab])
      else opts_enlarged_candidates)"

text \<open>
  \<^verbatim>\<open>
  if idiom in self.enlarged_candidates:
      idx = self.enlarged_candidates.index(idiom)
  else:
      idx = -100
  \<close>
\<close>

definition resolve_idx :: "int list \<Rightarrow> int \<Rightarrow> py_error + int" where
  "resolve_idx enlarged_candidates idiom =
     (if idiom \<in> set enlarged_candidates
      then (case index_of enlarged_candidates idiom of Inl e \<Rightarrow> Inl e | Inr i \<Rightarrow> Inr (int i))
      else Inr (- 100))"

section \<open>Target resolver (\<^verbatim>\<open>ChengyuCALODataset._decide_target\<close>)\<close>

text \<open>
  One record of the affective lexicon.  The lexicon \<^verbatim>\<open>self.calo_vocab\<close> (built by
  \<^verbatim>\<open>calo_process\<close>) maps an idiom id to its list of records; \<^verbatim>\<open>self.filtered\<close> is the
  list of labelled idiom ids of the split.
\<close>

record affections =
  coarse_emotion :: int
  fine_emotion :: int
  sentiment :: int
  strength :: int

type_synonym target = "int \<times> int \<times> int \<times> int \<times> int"

text \<open>
  \<^verbatim>\<open>
  def _decide_target(self, idiom, idx):
      target = [idx, -100, -100, -100, 0]
      if idiom in self.calo_vocab and idiom in self.filtered:
          affections = self.calo_vocab[idiom][0]
          target = [idx, affections['coarse_emotion'], affections['fine_emotion'],
                    affections['sentiment'], affections['strength']]
      return target
  \<close>
  \<open>has_annotation\<close> is the condition of the \<^verbatim>\<open>if\<close>; \<^verbatim>\<open>[0]\<close> on an empty record list
  raises IndexError.
\<close>

definition has_annotation :: "(int \<rightharpoonup> affections list) \<Rightarrow> int list \<Rightarrow> int \<Rightarrow> bool" where
  "has_annotation calo_vocab filtered idiom = (calo_vocab idiom \<noteq> None \<and> idiom \<in> set filtered)"

definition decide_target ::
  "(int \<rightharpoonup> affections list) \<Rightarrow> int list \<Rightarrow> int \<Rightarrow> int \<Rightarrow> py_error + target" where
  "decide_target calo_vocab filtered idiom idx =
     (if has_annotation calo_vocab filtered idiom
      then (case calo_vocab idiom of
              None \<Rightarrow> Inl KeyError
            | Some [] \<Rightarrow> Inl IndexError
            | Some (affections # _) \<Rightarrow>
                Inr (idx, coarse_emotion affections, fine_emotion affections,
                     sentiment affections, strength affections))
      else Inr (idx, - 100, - 100, - 100, 0))"

section \<open>Label weights (\<^verbatim>\<open>ChengyuCALODataset.get_label_weights\<close>)\<close>

text \<open>
  A \<^verbatim>\<open>collections.Counter\<close> over class labels, as an association list in insertion order:
  \<open>counter_update c x\<close> is \<^verbatim>\<open>c.update([x])\<close>, \<open>counter_get c x\<close> is \<^verbatim>\<open>c[x]\<close> (0 for a
  missing key), \<open>most_common1 c\<close> is \<^verbatim>\<open>c.most_common(1)[0]\<close> (the first entry with the
  largest count; IndexError on an empty counter).
\<close>

type_synonym counter = "(int \<times> nat) list"

fun counter_get :: "counter \<Rightarrow> int \<Rightarrow> nat" where
  "counter_get [] x = 0"
| "counter_get ((k, n) # rest) x = (if k = x then n else counter_get rest x)"

fun counter_update :: "counter \<Rightarrow> int \<Rightarrow> counter" where
  "counter_update [] x = [(x, 1)]"
| "counter_update ((k, n) # rest) x =
     (if k = x then (k, Suc n) # rest else (k, n) # counter_update rest x)"

fun most_common1 :: "counter \<Rightarrow> py_error + (int \<times> nat)" where
  "most_common1 [] = Inl IndexError"
| "most_common1 (kv # rest) =
     Inr (foldl (\<lambda>best kv'. if snd best < snd kv' then kv' else best) kv rest)"

text \<open>
  \<^verbatim>\<open>
  def get_label_weights(counter, num_classes):
      _, max_num = counter.most_common(1)[0]
      return torch.tensor([counter[i] / max_num for i in range(num_classes)])
  \<close>
  \<^verbatim>\<open>/\<close> is Python's true division; the quotients are taken as exact reals here.
\<close>

definition get_label_weights :: "counter \<Rightarrow> nat \<Rightarrow> py_error + real list" where
  "get_label_weights counter num_classes =
     (case most_common1 counter of
        Inl e \<Rightarrow> Inl e
      | Inr (_, max_num) \<Rightarrow>
          if max_num = 0 then Inl ZeroDivisionError
          else Inr (map (\<lambda>i. real (counter_get counter (int i)) / real max_num) [0..<num_classes]))"

text \<open>Counters built from the empty counter by \<open>counter_update\<close> hold positive counts only.\<close>

definition counts_positive :: "counter \<Rightarrow> bool" where
  "counts_positive counter = list_all (\<lambda>kv. 0 < snd kv) counter"

section \<open>Example assembly (\<^verbatim>\<open>__getitem__\<close>)\<close>

text \<open>
  The tokenizer is an external collaborator; only its special token ids are used.  An
  example is one record of the persisted instance store.  The dataset object holds what
  \<^verbatim>\<open>__init__\<close> and \<^verbatim>\<open>get_ids_and_lens\<close> stored in \<^verbatim>\<open>self\<close>; \<^verbatim>\<open>self.idiom_ids\<close> (the
  population of idiom ids, set up by the base class) is a field like the others.
\<close>

record tokenizer =
  cls_token_id :: int
  sep_token_id :: int
  mask_token_id :: int
  pad_token_id :: int

record example =
  ex_input_ids :: "int list"
  ex_position :: int
  ex_idiom :: int
  ex_options :: "int list"

record dataset =
  self_max_txt_len :: int
  self_use_context :: bool
  self_tokenizer :: tokenizer
  self_db :: "string \<rightharpoonup> example"
  self_ids :: "string list"
  self_st_ed :: "(int \<times> int) list"
  self_idiom_input_ids :: "int \<rightharpoonup> int list"
  self_idiom_ids :: "int list"
  self_enlarged_candidates :: "int list"
  self_calo_vocab :: "int \<rightharpoonup> affections list"
  self_filtered :: "int list"

text \<open>
  The outcomes of the random number generator are parameters.  \<open>sample_picks\<close> is the order
  in which \<^verbatim>\<open>random.sample\<close> draws the positions of its population, a rearrangement of
  all of them: a sample of size \<open>k\<close> holds the elements at the first \<open>k\<close> positions drawn.
  \<open>shuffle_perm\<close> is the rearrangement \<^verbatim>\<open>random.shuffle\<close> applies (the new list holds at
  position \<open>j\<close> the old element at position \<open>shuffle_perm ! j\<close>).  \<open>valid_perm n perm\<close> says
  that \<open>perm\<close> is a rearrangement of the positions \<open>0, ..., n - 1\<close>.
\<close>

record rand =
  sample_picks :: "nat list"
  shuffle_perm :: "nat list"

definition valid_perm :: "nat \<Rightarrow> nat list \<Rightarrow> bool" where
  "valid_perm n perm = (mset perm = mset [0..<n])"

text \<open>
  \<^verbatim>\<open>random.sample(population, k)\<close>: \<open>k\<close> elements at distinct positions of the population,
  in the order drawn; ValueError when the sample is larger than the population.
\<close>

definition random_sample :: "'a list \<Rightarrow> nat \<Rightarrow> nat list \<Rightarrow> py_error + 'a list" where
  "random_sample population k picks =
     (if length population < k then Inl ValueError
      else Inr (map (\<lambda>i. population ! i) (take k picks)))"

definition random_shuffle :: "'a list \<Rightarrow> nat list \<Rightarrow> 'a list" where
  "random_shuffle xs perm = map (\<lambda>i. xs ! i) perm"

text \<open>\<^verbatim>\<open>xs[-1] = v\<close>: IndexError on an empty list.\<close>

definition set_last :: "'a list \<Rightarrow> 'a \<Rightarrow> py_error + 'a list" where
  "set_last xs v = (if xs = [] then Inl IndexError else Inr (xs[length xs - 1 := v]))"

text \<open>
  \<^verbatim>\<open>
  options = example['options']
  idiom = example['idiom']
  if len(options) == 0:
      options = random.sample(self.idiom_ids, k=7)
      if idiom not in options:
          options[-1] = idiom
      random.shuffle(options)
  \<close>
\<close>

definition fill_options :: "int list \<Rightarrow> int list \<Rightarrow> int \<Rightarrow> rand \<Rightarrow> py_error + int list" where
  "fill_options idiom_ids options idiom rnd =
     (if length options = 0
      then bind_err (random_sample idiom_ids 7 (sample_picks rnd)) (\<lambda>sampled.
           bind_err (if idiom \<notin> set sampled then set_last sampled idiom else Inr sampled) (\<lambda>replaced.
           Inr (random_shuffle replaced (shuffle_perm rnd))))
      else Inr options)"

text \<open>
  The two assembled sequences, written in the source as
  \<^verbatim>\<open>reduce(operator.add, [[cls], context_ids[:idiom_start], tokens, context_ids[idiom_start + 1:], [sep]])\<close>
  and \<^verbatim>\<open>reduce(operator.add, [[cls], tokens, [sep]])\<close>.
\<close>

definition with_context :: "tokenizer \<Rightarrow> int list \<Rightarrow> nat \<Rightarrow> int list \<Rightarrow> int list" where
  "with_context tok context_ids idiom_start tokens =
     [cls_token_id tok] @ take idiom_start context_ids @ tokens
       @ drop (idiom_start + 1) context_ids @ [sep_token_id tok]"

definition without_context :: "tokenizer \<Rightarrow> int list \<Rightarrow> int list" where
  "without_context tok tokens = [cls_token_id tok] @ tokens @ [sep_token_id tok]"

text \<open>
  What \<^verbatim>\<open>ChengyuCALOComposeOnlyDataset.__getitem__\<close> returns:
  \<^verbatim>\<open>input_ids, token_type_ids, attention_mask, position, idiom_len, options, target\<close>.
\<close>

record item =
  it_input_ids :: "int list"
  it_token_type_ids :: "int list"
  it_attention_mask :: "int list"
  it_position :: int
  it_idiom_len :: nat
  it_options :: "int list"
  it_target :: target

text \<open>
  \<^verbatim>\<open>ChengyuCALOComposeOnlyDataset.__getitem__\<close> (affection.py, lines 137--184), in the order
  of the source (\<^verbatim>\<open>id_\<close> is written \<open>qid\<close>): the three look-ups, the options, the context slice and the mask position
  in it, the idiom's tokens, the target, the assembled sequence and the length assertion.
\<close>

definition getitem :: "dataset \<Rightarrow> nat \<Rightarrow> rand \<Rightarrow> py_error + item" where
  "getitem self i rnd =
     (if length (self_ids self) \<le> i \<or> length (self_st_ed self) \<le> i then Inl IndexError
      else
        let qid = self_ids self ! i;
            st = fst (self_st_ed self ! i);
            ed = snd (self_st_ed self ! i)
        in case self_db self qid of
             None \<Rightarrow> Inl KeyError
           | Some example \<Rightarrow>
        let idiom = ex_idiom example
        in bind_err (fill_options (self_idiom_ids self) (ex_options example) idiom rnd) (\<lambda>options.
        let context_ids = py_slice (ex_input_ids example) st ed
        in bind_err (index_of context_ids (mask_token_id (self_tokenizer self))) (\<lambda>idiom_start.
           case self_idiom_input_ids self idiom of
             None \<Rightarrow> Inl KeyError
           | Some idiom_input_ids \<Rightarrow>
        let idiom_len = length idiom_input_ids
        in bind_err (resolve_idx (self_enlarged_candidates self) idiom) (\<lambda>idx.
           bind_err (decide_target (self_calo_vocab self) (self_filtered self) idiom idx) (\<lambda>target.
        let input_ids =
              (if self_use_context self
               then with_context (self_tokenizer self) context_ids idiom_start idiom_input_ids
               else without_context (self_tokenizer self) idiom_input_ids);
            position = (if self_use_context self then int idiom_start + 1 else 1)
        in if int (length input_ids) \<le> self_max_txt_len self + int idiom_len
           then Inr \<lparr>it_input_ids = input_ids,
                     it_token_type_ids = replicate (length input_ids) 0,
                     it_attention_mask = replicate (length input_ids) 1,
                     it_position = position,
                     it_idiom_len = idiom_len,
                     it_options = options,
                     it_target = target\<rparr>
           else Inl AssertionError)))))"

text \<open>
  What \<^verbatim>\<open>ChengyuCALOComposeOnlyMaskedDataset.__getitem__\<close> returns: the visible and the
  masked channel as pairs,
  \<^verbatim>\<open>(input_ids, input_masked_ids), token_type_ids, (attention_mask_literal, attention_mask_idiomatic), position, idiom_len, options, target\<close>.
\<close>

record masked_item =
  mi_input_ids :: "int list \<times> int list"
  mi_token_type_ids :: "int list"
  mi_attention_mask :: "int list \<times> int list"
  mi_position :: "int \<times> int"
  mi_idiom_len :: nat
  mi_options :: "int list"
  mi_target :: target

text \<open>
  \<^verbatim>\<open>ChengyuCALOComposeOnlyMaskedDataset.__getitem__\<close> (affection.py, lines 269--330).  Without
  context the visible channel is padded to the length of the masked one:
  \<^verbatim>\<open>
  input_ids_len = len(input_ids)
  input_ids = input_ids + [self.tokenizer.pad_token_id] * (len(input_masked_ids) - input_ids_len)
  position = (1, idiom_start + 1)
  attention_mask_literal = [1] * input_ids_len + [0] * (len(input_masked_ids) - input_ids_len)
  \<close>
  A list repeated a negative number of times is empty, as \<open>replicate\<close> of a truncated
  difference is.
\<close>

definition getitem_masked :: "dataset \<Rightarrow> nat \<Rightarrow> rand \<Rightarrow> py_error + masked_item" where
  "getitem_masked self i rnd =
     (if length (self_ids self) \<le> i \<or> length (self_st_ed self) \<le> i then Inl IndexError
      else
        let qid = self_ids self ! i;
            st = fst (self_st_ed self ! i);
            ed = snd (self_st_ed self ! i)
        in case self_db self qid of
             None \<Rightarrow> Inl KeyError
           | Some example \<Rightarrow>
        let idiom = ex_idiom example
        in bind_err (fill_options (self_idiom_ids self) (ex_options example) idiom rnd) (\<lambda>options.
        let context_ids = py_slice (ex_input_ids example) st ed
        in bind_err (index_of context_ids (mask_token_id (self_tokenizer self))) (\<lambda>idiom_start.
           case self_idiom_input_ids self idiom of
             None \<Rightarrow> Inl KeyError
           | Some idiom_input_ids \<Rightarrow>
        let idiom_len = length idiom_input_ids;
            idiom_masked_input_ids = replicate idiom_len (mask_token_id (self_tokenizer self))
        in bind_err (resolve_idx (self_enlarged_candidates self) idiom) (\<lambda>idx.
           bind_err (decide_target (self_calo_vocab self) (self_filtered self) idiom idx) (\<lambda>target.
        let input_masked_ids =
              with_context (self_tokenizer self) context_ids idiom_start idiom_masked_input_ids;
            short_ids = without_context (self_tokenizer self) idiom_input_ids;
            input_ids_len = length short_ids;
            input_ids =
              (if self_use_context self
               then with_context (self_tokenizer self) context_ids idiom_start idiom_input_ids
               else short_ids @ replicate (length input_masked_ids - input_ids_len)
                                          (pad_token_id (self_tokenizer self)));
            position =
              (if self_use_context self then (int idiom_start + 1, int idiom_start + 1)
               else (1, int idiom_start + 1));
            attention_mask_literal =
              (if self_use_context self then replicate (length input_ids) 1
               else replicate input_ids_len 1
                      @ replicate (length input_masked_ids - input_ids_len) 0)
        in if int (length input_ids) \<le> self_max_txt_len self + int idiom_len
           then Inr \<lparr>mi_input_ids = (input_ids, input_masked_ids),
                     mi_token_type_ids = replicate (length input_ids) 0,
                     mi_attention_mask =
                       (attention_mask_literal, replicate (length input_ids) 1),
                     mi_position = position,
                     mi_idiom_len = idiom_len,
                     mi_options = options,
                     mi_target = target\<rparr>
           else Inl AssertionError)))))"

section \<open>The pass over the examples (\<^verbatim>\<open>ChengyuCALODataset.get_ids_and_lens\<close>)\<close>

text \<open>
  What \<^verbatim>\<open>get_ids_and_lens\<close> returns:
  \<^verbatim>\<open>lens, ids, st_ed, fine_emotion_counter, sentiment_counter\<close>.
\<close>

record ids_and_lens =
  r_lens :: "int list"
  r_ids :: "string list"
  r_st_ed :: "(int \<times> int) list"
  r_fine_emotion_counter :: counter
  r_sentiment_counter :: counter

text \<open>
  The loop of \<^verbatim>\<open>get_ids_and_lens\<close> (affection.py, lines 63--89) over
  \<^verbatim>\<open>self.id2len.items()\<close>, with the five accumulators as state:
  \<^verbatim>\<open>
  for id_, len_ in self.id2len.items():
      if id_ not in self.allowed:
          continue
      example = self.db[id_]
      idiom = example['idiom']
      if idiom in self.calo_vocab and idiom in self.filtered:
          affections = self.calo_vocab[idiom][0]
          fine_emotion_counter.update([affections['fine_emotion']])
          sentiment_counter.update([affections['sentiment']])
      position = example['position']
      input_ids = example['input_ids']
      ...                                  # the window, see get_st_ed
      assert ed - st <= self.max_txt_len - 2
      st_ed.append((st, ed))
      lens.append(ed - st + 1)
      ids.append(id_)
  \<close>
  \<open>count_labels\<close> is the \<^verbatim>\<open>if\<close> statement that updates the two counters (\<^verbatim>\<open>id_\<close> is
  written \<open>qid\<close>).
\<close>

definition count_labels ::
  "(int \<rightharpoonup> affections list) \<Rightarrow> int list \<Rightarrow> int \<Rightarrow> counter \<times> counter
     \<Rightarrow> py_error + (counter \<times> counter)" where
  "count_labels calo_vocab filtered idiom counters =
     (if has_annotation calo_vocab filtered idiom
      then (case calo_vocab idiom of
              None \<Rightarrow> Inl KeyError
            | Some [] \<Rightarrow> Inl IndexError
            | Some (affections # _) \<Rightarrow>
                Inr (counter_update (fst counters) (fine_emotion affections),
                     counter_update (snd counters) (sentiment affections)))
      else Inr counters)"

fun get_ids_and_lens_loop ::
  "int \<Rightarrow> (string \<rightharpoonup> example) \<Rightarrow> string list \<Rightarrow> (int \<rightharpoonup> affections list) \<Rightarrow> int list
     \<Rightarrow> (string \<times> nat) list \<Rightarrow> ids_and_lens \<Rightarrow> py_error + ids_and_lens" where
  "get_ids_and_lens_loop max_txt_len db allowed calo_vocab filtered [] acc = Inr acc"
| "get_ids_and_lens_loop max_txt_len db allowed calo_vocab filtered ((qid, len) # rest) acc =
     (if qid \<notin> set allowed
      then get_ids_and_lens_loop max_txt_len db allowed calo_vocab filtered rest acc
      else
        case db qid of
          None \<Rightarrow> Inl KeyError
        | Some example \<Rightarrow>
           bind_err (count_labels calo_vocab filtered (ex_idiom example)
                       (r_fine_emotion_counter acc, r_sentiment_counter acc)) (\<lambda>counters.
           bind_err (get_st_ed (ex_input_ids example) (ex_position example) max_txt_len) (\<lambda>w.
             get_ids_and_lens_loop max_txt_len db allowed calo_vocab filtered rest
               \<lparr>r_lens = r_lens acc @ [snd w - fst w + 1],
                r_ids = r_ids acc @ [qid],
                r_st_ed = r_st_ed acc @ [w],
                r_fine_emotion_counter = fst counters,
                r_sentiment_counter = snd counters\<rparr>)))"

definition get_ids_and_lens ::
  "int \<Rightarrow> (string \<rightharpoonup> example) \<Rightarrow> string list \<Rightarrow> (int \<rightharpoonup> affections list) \<Rightarrow> int list
     \<Rightarrow> (string \<times> nat) list \<Rightarrow> py_error + ids_and_lens" where
  "get_ids_and_lens max_txt_len db allowed calo_vocab filtered id2len =
     get_ids_and_lens_loop max_txt_len db allowed calo_vocab filtered id2len
       \<lparr>r_lens = [], r_ids = [], r_st_ed = [],
        r_fine_emotion_counter = [], r_sentiment_counter = []\<rparr>"

text \<open>What the pass maintains: every stored window is within the budget, every count is positive.\<close>

definition windows_ok :: "int \<Rightarrow> ids_and_lens \<Rightarrow> bool" where
  "windows_ok budget acc =
     (list_all (\<lambda>w. snd w - fst w \<le> budget - 2) (r_st_ed acc)
      \<and> counts_positive (r_fine_emotion_counter acc)
      \<and> counts_positive (r_sentiment_counter acc))"

section \<open>Batch collation (\<^verbatim>\<open>collate_fn\<close>)\<close>

text \<open>
  Tensors of integers are nested lists.  \<open>arange a b\<close> is \<^verbatim>\<open>torch.arange(a, b)\<close>, \<open>py_max\<close> is
  Python's \<^verbatim>\<open>max\<close> of a list (ValueError on an empty one), and \<open>pad_sequence\<close> is
  \<^verbatim>\<open>pad_sequence(seqs, batch_first=True, padding_value=0)\<close>: every sequence is filled with
  zeros on the right up to the longest one.
\<close>

definition arange :: "int \<Rightarrow> int \<Rightarrow> int list" where
  "arange a b = map (\<lambda>k. a + int k) [0..<nat (b - a)]"

fun py_max :: "nat list \<Rightarrow> py_error + nat" where
  "py_max [] = Inl ValueError"
| "py_max (x # xs) = Inr (fold max xs x)"

definition pad_sequence :: "int list list \<Rightarrow> py_error + int list list" where
  "pad_sequence seqs =
     bind_err (py_max (map length seqs)) (\<lambda>max_len.
       Inr (map (\<lambda>s. s @ replicate (max_len - length s) 0) seqs))"

text \<open>
  \<^verbatim>\<open>row[:w] = vals\<close> on one row of a tensor: the slice holds the first \<open>min w (len row)\<close>
  entries; the values must have as many elements, or be a single element, which is then
  broadcast; any other shape is a RuntimeError.
\<close>

definition assign_prefix :: "int list \<Rightarrow> nat \<Rightarrow> int list \<Rightarrow> py_error + int list" where
  "assign_prefix row w vals =
     (if length vals = min w (length row) then Inr (vals @ drop w row)
      else if length vals = 1 then Inr (replicate (min w (length row)) (hd vals) @ drop w row)
      else Inl RuntimeError)"

text \<open>
  The loop
  \<^verbatim>\<open>
  for i, (p, w) in enumerate(zip(positions, widths)):
      gather_index.data[i, :w] = torch.arange(p, p + w, dtype=torch.long).data
  \<close>
  with the tensor passed along as state; \<open>i\<close> is the counter of \<^verbatim>\<open>enumerate\<close>.
\<close>

fun fill_gather :: "nat \<Rightarrow> (int \<times> nat) list \<Rightarrow> int list list \<Rightarrow> py_error + int list list" where
  "fill_gather i [] gather_index = Inr gather_index"
| "fill_gather i ((p, w) # rest) gather_index =
     (if length gather_index \<le> i then Inl IndexError
      else bind_err (assign_prefix (gather_index ! i) w (arange p (p + int w))) (\<lambda>row.
             fill_gather (Suc i) rest (gather_index[i := row])))"

text \<open>
  \<^verbatim>\<open>
  width_max = max(widths)
  gather_index = torch.arange(0, width_max, dtype=torch.long).unsqueeze(0).repeat(len(inputs), 1).clone()
  for i, (p, w) in enumerate(zip(positions, widths)): ...
  \<close>
  (affection.py, lines 195--198, and twice in lines 343--350); \<open>n\<close> is \<^verbatim>\<open>len(inputs)\<close>.
\<close>

definition build_gather_index :: "nat \<Rightarrow> int list \<Rightarrow> nat list \<Rightarrow> py_error + int list list" where
  "build_gather_index n positions widths =
     bind_err (py_max widths) (\<lambda>width_max.
       fill_gather 0 (zip positions widths) (replicate n (arange 0 (int width_max))))"

text \<open>
  \<^verbatim>\<open>torch.tensor(rows)\<close> on a list of lists is a ValueError unless all rows have one length;
  \<^verbatim>\<open>torch.stack([a, b])\<close> is a RuntimeError unless both tensors have one shape.
\<close>

definition tensor_2d :: "int list list \<Rightarrow> py_error + int list list" where
  "tensor_2d rows =
     (if list_all (\<lambda>r. length r = length (hd rows)) rows then Inr rows else Inl ValueError)"

definition stack2 ::
  "int list list \<Rightarrow> int list list \<Rightarrow> py_error + (int list list \<times> int list list)" where
  "stack2 a b = (if map length a = map length b then Inr (a, b) else Inl RuntimeError)"

text \<open>The batch dictionary of \<^verbatim>\<open>ChengyuCALOComposeOnlyDataset.collate_fn\<close>.\<close>

record batch =
  b_input_ids :: "int list list"
  b_token_type_ids :: "int list list"
  b_attention_mask :: "int list list"
  b_gather_index :: "int list list"
  b_positions :: "int list"
  b_option_ids :: "int list list"
  b_targets :: "target list"

text \<open>
  \<^verbatim>\<open>ChengyuCALOComposeOnlyDataset.collate_fn\<close> (affection.py, lines 186--207).  Unpacking
  the seven columns of an empty input list is a ValueError.
\<close>

definition collate_fn :: "item list \<Rightarrow> py_error + batch" where
  "collate_fn inputs =
     (if inputs = [] then Inl ValueError
      else
        bind_err (pad_sequence (map it_input_ids inputs)) (\<lambda>input_ids.
        bind_err (pad_sequence (map it_token_type_ids inputs)) (\<lambda>token_type_ids.
        bind_err (pad_sequence (map it_attention_mask inputs)) (\<lambda>attn_masks.
        bind_err (build_gather_index (length inputs) (map it_position inputs)
                    (map it_idiom_len inputs)) (\<lambda>gather_index.
        bind_err (tensor_2d (map it_options inputs)) (\<lambda>option_ids.
          Inr \<lparr>b_input_ids = input_ids,
               b_token_type_ids = token_type_ids,
               b_attention_mask = attn_masks,
               b_gather_index = gather_index,
               b_positions = map it_position inputs,
               b_option_ids = option_ids,
               b_targets = map it_target inputs\<rparr>))))))"

text \<open>The batch dictionary of \<^verbatim>\<open>ChengyuCALOComposeOnlyMaskedDataset.collate_fn\<close>.\<close>

record masked_batch =
  mb_input_ids :: "int list list \<times> int list list"
  mb_token_type_ids :: "int list list \<times> int list list"
  mb_attention_mask :: "int list list \<times> int list list"
  mb_gather_index :: "int list list \<times> int list list"
  mb_positions :: "(int \<times> int) list"
  mb_option_ids :: "int list list"
  mb_targets :: "target list"

text \<open>
  \<^verbatim>\<open>ChengyuCALOComposeOnlyMaskedDataset.collate_fn\<close> (affection.py, lines 332--359): one
  gather index from the first components of the positions, one from the second.
\<close>

definition collate_fn_masked :: "masked_item list \<Rightarrow> py_error + masked_batch" where
  "collate_fn_masked inputs =
     (if inputs = [] then Inl ValueError
      else
        bind_err (pad_sequence (map (\<lambda>x. fst (mi_input_ids x)) inputs)) (\<lambda>input_ids.
        bind_err (pad_sequence (map (\<lambda>x. snd (mi_input_ids x)) inputs)) (\<lambda>input_masked_ids.
        bind_err (pad_sequence (map mi_token_type_ids inputs)) (\<lambda>token_type_ids.
        bind_err (pad_sequence (map (\<lambda>x. fst (mi_attention_mask x)) inputs)) (\<lambda>attn_masks_literal.
        bind_err (pad_sequence (map (\<lambda>x. snd (mi_attention_mask x)) inputs)) (\<lambda>attn_masks_idiomatic.
        bind_err (build_gather_index (length inputs) (map (\<lambda>x. fst (mi_position x)) inputs)
                    (map mi_idiom_len inputs)) (\<lambda>gather_index.
        bind_err (build_gather_index (length inputs) (map (\<lambda>x. snd (mi_position x)) inputs)
                    (map mi_idiom_len inputs)) (\<lambda>gather_index_masked.
        bind_err (stack2 input_ids input_masked_ids) (\<lambda>stacked_ids.
        bind_err (stack2 token_type_ids token_type_ids) (\<lambda>stacked_types.
        bind_err (stack2 attn_masks_literal attn_masks_idiomatic) (\<lambda>stacked_masks.
        bind_err (tensor_2d (map mi_options inputs)) (\<lambda>option_ids.
          Inr \<lparr>mb_input_ids = stacked_ids,
               mb_token_type_ids = stacked_types,
               mb_attention_mask = stacked_masks,
               mb_gather_index = (gather_index, gather_index_masked),
               mb_positions = map mi_position inputs,
               mb_option_ids = option_ids,
               mb_targets = map mi_target inputs\<rparr>))))))))))))"

text \<open>
  The gather index the specification describes (section 4.4): one row per instance, of
  width \<open>W = max(widths)\<close>; row \<open>i\<close> starts with \<open>positions[i], positions[i] + 1, ...\<close> for
  \<open>widths[i]\<close> entries, and every later column \<open>j\<close> holds \<open>j\<close>.
\<close>

definition gather_rows_ok :: "int list \<Rightarrow> nat list \<Rightarrow> int list list \<Rightarrow> bool" where
  "gather_rows_ok positions widths g =
     (length g = length widths
      \<and> (\<forall>i<length widths.
            length (g ! i) = Max (set widths)
          \<and> (\<forall>j<widths ! i. g ! i ! j = positions ! i + int j)
          \<and> (\<forall>j. widths ! i \<le> j \<and> j < Max (set widths) \<longrightarrow> g ! i ! j = int j)))"

section \<open>Span pooling and latent-vocabulary scoring (\<^verbatim>\<open>modeling_affection.py\<close>)\<close>

text \<open>
  Tensors are nested lists, outermost dimension first.  The encoder is an external
  collaborator: its output \<^verbatim>\<open>encoded_context\<close> of shape \<open>[N, S, H]\<close> is an argument.  Pooling
  only compares hidden values, so they may be of any linearly ordered type.
\<close>

text \<open>\<^verbatim>\<open>gather_index.unsqueeze(-1).expand(-1, -1, self.config.hidden_size)\<close>\<close>

definition expand_hidden :: "nat \<Rightarrow> int list list \<Rightarrow> int list list list" where
  "expand_hidden hidden_size gather_index = map (map (replicate hidden_size)) gather_index"

text \<open>
  \<^verbatim>\<open>torch.gather(input, dim=1, index=index)\<close>: the result has the shape of \<open>index\<close> and
  \<open>out[b][j][d] = input[b][index[b][j][d]][d]\<close>.  The index must not be larger than the
  input in the other two dimensions, and every entry must be a position of dimension 1 of
  the input; otherwise a RuntimeError is raised.
\<close>

definition gather_dim1 :: "'a list list list \<Rightarrow> int list list list \<Rightarrow> py_error + 'a list list list" where
  "gather_dim1 input index =
     (if length index \<le> length input
         \<and> list_all (\<lambda>b. list_all (\<lambda>j. list_all (\<lambda>d.
               0 \<le> index ! b ! j ! d
             \<and> nat (index ! b ! j ! d) < length (input ! b)
             \<and> d < length (input ! b ! nat (index ! b ! j ! d)))
             [0..<length (index ! b ! j)]) [0..<length (index ! b)]) [0..<length index]
      then Inr (map (\<lambda>b. map (\<lambda>j. map (\<lambda>d. input ! b ! nat (index ! b ! j ! d) ! d)
                  [0..<length (index ! b ! j)]) [0..<length (index ! b)]) [0..<length index])
      else Inl RuntimeError)"

text \<open>
  \<^verbatim>\<open>values, _ = x.max(dim=1)\<close>: the elementwise maximum of the vectors along dimension 1; a
  RuntimeError when that dimension is empty.
\<close>

definition max_dim1 :: "('a::linorder) list list list \<Rightarrow> py_error + 'a list list" where
  "max_dim1 x =
     (if list_ex (\<lambda>rows. rows = []) x then Inl RuntimeError
      else Inr (map (\<lambda>rows. fold (\<lambda>r acc. map2 max acc r) (tl rows) (hd rows)) x))"

text \<open>
  Lines 51--54 of \<^verbatim>\<open>AffectionMaxPooling.forward\<close> (the same three statements pool each
  channel in the forward functions of the masked models):
  \<^verbatim>\<open>
  gather_index = gather_index.unsqueeze(-1).expand(-1, -1, self.config.hidden_size).type_as(input_ids)
  idiom_states = torch.gather(encoded_context, dim=1, index=gather_index)
  composed_states, _ = idiom_states.max(dim=1)
  \<close>
\<close>

definition span_pool ::
  "nat \<Rightarrow> ('a::linorder) list list list \<Rightarrow> int list list \<Rightarrow> py_error + 'a list list" where
  "span_pool hidden_size encoded_context gather_index =
     bind_err (gather_dim1 encoded_context (expand_hidden hidden_size gather_index))
       (\<lambda>idiom_states. max_dim1 idiom_states)"

text \<open>Shapes: a tensor \<open>[n, s, h]\<close> and a tensor \<open>[n, w]\<close>.\<close>

definition shape3 :: "nat \<Rightarrow> nat \<Rightarrow> nat \<Rightarrow> 'a list list list \<Rightarrow> bool" where
  "shape3 n s h x =
     (length x = n \<and> list_all (\<lambda>m. length m = s \<and> list_all (\<lambda>v. length v = h) m) x)"

definition shape2 :: "nat \<Rightarrow> nat \<Rightarrow> 'a list list \<Rightarrow> bool" where
  "shape2 n w x = (length x = n \<and> list_all (\<lambda>v. length v = w) x)"

text \<open>
  The scorer works on floating-point tensors; here the numbers are exact reals.
  \<open>embedding weight ids\<close> is the look-up \<^verbatim>\<open>self.idiom_embedding(ids)\<close> in the table
  \<open>weight\<close> (IndexError for an id outside the table); the two \<^verbatim>\<open>torch.einsum\<close> calls
  contract the hidden dimension \<open>d\<close> and the candidate dimension \<open>n\<close> (RuntimeError when
  the contracted sizes differ); \<open>softmax\<close> is \<^verbatim>\<open>softmax(dim=-1)\<close> on one row.
\<close>

definition embedding :: "real list list \<Rightarrow> int list \<Rightarrow> py_error + real list list" where
  "embedding weight ids =
     (if list_all (\<lambda>i. 0 \<le> i \<and> nat i < length weight) ids
      then Inr (map (\<lambda>i. weight ! nat i) ids)
      else Inl IndexError)"

definition einsum_bd_nd_bn :: "real list list \<Rightarrow> real list list \<Rightarrow> py_error + real list list" where
  "einsum_bd_nd_bn x y =
     (if list_all (\<lambda>xb. list_all (\<lambda>yn. length xb = length yn) y) x
      then Inr (map (\<lambda>xb. map (\<lambda>yn. sum_list (map2 (*) xb yn)) y) x)
      else Inl RuntimeError)"

definition einsum_bn_nd_bd ::
  "nat \<Rightarrow> real list list \<Rightarrow> real list list \<Rightarrow> py_error + real list list" where
  "einsum_bn_nd_bd hidden_size p y =
     (if list_all (\<lambda>pb. length pb = length y) p \<and> list_all (\<lambda>yn. length yn = hidden_size) y
      then Inr (map (\<lambda>pb. map (\<lambda>d. sum_list (map2 (\<lambda>pk yn. pk * yn ! d) pb y))
                  [0..<hidden_size]) p)
      else Inl RuntimeError)"

definition softmax :: "real list \<Rightarrow> real list" where
  "softmax l = map (\<lambda>x. exp x / sum_list (map exp l)) l"

text \<open>
  \<^verbatim>\<open>
  def vocab(self, blank_states):
      idiom_embeddings = self.idiom_embedding(self.enlarged_candidates)
      logits = torch.einsum('bd,nd->bn', [blank_states, idiom_embeddings])
      state = torch.einsum('bn,nd->bd', [logits.softmax(dim=-1), idiom_embeddings])
      return logits, state
  \<close>
  \<open>hidden_size\<close> is the number of columns of the embedding table
  (\<^verbatim>\<open>nn.Embedding(opts.len_idiom_vocab, config.hidden_size)\<close>).
\<close>

definition vocab ::
  "nat \<Rightarrow> real list list \<Rightarrow> int list \<Rightarrow> real list list
     \<Rightarrow> py_error + (real list list \<times> real list list)" where
  "vocab hidden_size weight enlarged_candidates blank_states =
     bind_err (embedding weight enlarged_candidates) (\<lambda>idiom_embeddings.
     bind_err (einsum_bd_nd_bn blank_states idiom_embeddings) (\<lambda>logits.
     bind_err (einsum_bn_nd_bd hidden_size (map softmax logits) idiom_embeddings) (\<lambda>state.
       Inr (logits, state))))"

section \<open>Concrete inputs\<close>

text \<open>
  A lexicon with two idioms, of which the labelled set \<open>[7, 9]\<close> used below holds only the
  first; and a lexicon whose record for idiom 7 carries the values of the default target,
  while idiom 8 has no record at all.
\<close>

definition lexicon0 :: "int \<rightharpoonup> affections list" where
  "lexicon0 =
     [7 \<mapsto> [\<lparr>coarse_emotion = 2, fine_emotion = 5, sentiment = 1, strength = 3\<rparr>],
      8 \<mapsto> [\<lparr>coarse_emotion = 4, fine_emotion = 11, sentiment = 2, strength = 1\<rparr>]]"


definition counter0 :: counter where
  "counter0 = counter_update (counter_update (counter_update (counter_update [] 0) 1) 0) 0"

definition tokenizer0 :: tokenizer where
  "tokenizer0 = \<lparr>cls_token_id = 101, sep_token_id = 102, mask_token_id = 103, pad_token_id = 0\<rparr>"

definition example0 :: example where
  "example0 = \<lparr>ex_input_ids = [11, 12, 103, 13, 14, 15, 16, 17, 18, 19], ex_position = 2,
                ex_idiom = 7, ex_options = []\<rparr>"

definition dataset0 :: "bool \<Rightarrow> dataset" where
  "dataset0 ctx =
     \<lparr>self_max_txt_len = 8, self_use_context = ctx, self_tokenizer = tokenizer0,
      self_db = [''a'' \<mapsto> example0], self_ids = [''a''], self_st_ed = [(0, 6)],
      self_idiom_input_ids = [7 \<mapsto> [21, 22, 23, 24]],
      self_idiom_ids = [0, 1, 2, 3, 4, 5, 6, 7, 8, 9],
      self_enlarged_candidates = [3, 7, 9],
      self_calo_vocab = lexicon0, self_filtered = [7, 9]\<rparr>"

definition rand0 :: rand where
  "rand0 = \<lparr>sample_picks = [0, 1, 2, 3, 4, 5, 6, 7, 8, 9], shuffle_perm = [6, 5, 4, 3, 2, 1, 0]\<rparr>"

text \<open>Random outcomes for a population of six ids and for one of eight.\<close>

definition rand6 :: rand where
  "rand6 = \<lparr>sample_picks = [0, 1, 2, 3, 4, 5], shuffle_perm = [0, 1, 2, 3, 4, 5, 6]\<rparr>"

definition rand8 :: rand where
  "rand8 = \<lparr>sample_picks = [0, 1, 2, 3, 4, 5, 6, 7], shuffle_perm = [0, 1, 2, 3, 4, 5, 6]\<rparr>"

definition item_a :: item where
  "item_a = \<lparr>it_input_ids = [101, 11, 41, 42, 12, 102], it_token_type_ids = [0, 0, 0, 0, 0, 0],
             it_attention_mask = [1, 1, 1, 1, 1, 1], it_position = 2, it_idiom_len = 2,
             it_options = [7, 5, 4, 3, 2, 1, 0], it_target = (1, 2, 5, 1, 3)\<rparr>"

definition item_b :: item where
  "item_b = \<lparr>it_input_ids = [101, 51, 52, 53, 102], it_token_type_ids = [0, 0, 0, 0, 0],
             it_attention_mask = [1, 1, 1, 1, 1], it_position = 1, it_idiom_len = 3,
             it_options = [9, 8, 7, 6, 5, 4, 3], it_target = (2, - 100, - 100, - 100, 0)\<rparr>"

definition masked_item_a :: masked_item where
  "masked_item_a =
     \<lparr>mi_input_ids = ([101, 41, 42, 102, 0, 0], [101, 11, 103, 103, 12, 102]),
      mi_token_type_ids = [0, 0, 0, 0, 0, 0],
      mi_attention_mask = ([1, 1, 1, 1, 0, 0], [1, 1, 1, 1, 1, 1]),
      mi_position = (1, 2), mi_idiom_len = 2,
      mi_options = [7, 5, 4, 3, 2, 1, 0], mi_target = (1, 2, 5, 1, 3)\<rparr>"

definition masked_item_b :: masked_item where
  "masked_item_b =
     \<lparr>mi_input_ids = ([101, 51, 52, 53, 102], [101, 103, 103, 103, 102]),
      mi_token_type_ids = [0, 0, 0, 0, 0],
      mi_attention_mask = ([1, 1, 1, 1, 1], [1, 1, 1, 1, 1]),
      mi_position = (1, 1), mi_idiom_len = 3,
      mi_options = [9, 8, 7, 6, 5, 4, 3], mi_target = (2, - 100, - 100, - 100, 0)\<rparr>"

definition weight0 :: "real list list" where
  "weight0 = [[1, 0], [0, 1], [1, 1]]"

definition hidden0 :: "int list list list" where
  "hidden0 = [[[1, 5], [3, 2], [0, 7]]]"

section \<open>Properties of the windowing\<close>

lemma half_bounds: "2 * (m div 2) \<le> (m::int) \<and> m \<le> 2 * (m div 2) + 1"
  by presburger

text \<open>The assertion that closes the window computation never fails, whatever the budget.\<close>

lemma get_st_ed_assert: "get_st_ed input_ids position max_txt_len \<noteq> Inl e"
  using half_bounds [of max_txt_len]
  unfolding get_st_ed_def Let_def by (auto simp: max_def min_def split: prod.splits)

text \<open>With a mask position and a budget that are not negative, neither is the window.\<close>

lemma get_st_ed_nonneg:
  assumes "0 \<le> position" and "0 \<le> max_txt_len"
    and "get_st_ed input_ids position max_txt_len = Inr (st, ed)"
  shows "0 \<le> st \<and> 0 \<le> ed"
proof -
  have "0 \<le> max_txt_len div 2" using assms(2) by simp
  then show ?thesis
    using assms(1,3) unfolding get_st_ed_def Let_def by (auto split: if_splits prod.splits)
qed

lemma scenario_A: "get_st_ed [1, 2, 3, 4, 5, 6, 7, 8, 9, 10] 2 8 = Inr (0, 6)"
  by (simp add: get_st_ed_def)

lemma scenario_B: "get_st_ed [1, 2, 3, 4, 5, 6, 7, 8, 9, 10] 8 8 = Inr (4, 10)"
  by (simp add: get_st_ed_def)

text \<open>
  C1 (as stated, for every \<open>max_txt_len\<close>) fails: with one token, the mask at position 0
  and \<open>max_txt_len = 2\<close> the tail cut gives \<open>ed = min(2, 0) = 0\<close>, so the window \<open>(0, 0)\<close>
  is empty and does not contain the mask position.
\<close>

theorem get_st_ed_small_budget_counterexample:
  "get_st_ed [103] 0 2 = Inr (0, 0) \<and> \<not> window_ok (int (length [103::int])) 0 2 (0, 0)"
  by (simp add: get_st_ed_def window_ok_def)

text \<open>
  C1 (amended): for every token-id sequence of length \<open>L\<close>, every mask position with
  \<open>0 \<le> position < L\<close> and every \<open>max_txt_len \<ge> 4\<close>, the window computation passes its
  assertion and returns \<open>(st, ed)\<close> with \<open>0 \<le> st \<le> position < ed \<le> L + 1\<close> and
  \<open>ed - st \<le> max_txt_len - 2\<close>.
\<close>

theorem get_st_ed_window_ok:
  assumes "0 \<le> position" and "position < int (length input_ids)" and "4 \<le> max_txt_len"
  shows "\<exists>w. get_st_ed input_ids position max_txt_len = Inr w
             \<and> window_ok (int (length input_ids)) position max_txt_len w"
proof -
  let ?h = "max_txt_len div 2"
  have h: "2 \<le> ?h" "2 * ?h \<le> max_txt_len" "max_txt_len \<le> 2 * ?h + 1"
    using assms(3) by presburger+
  show ?thesis
    using assms(1,2) h unfolding get_st_ed_def window_ok_def Let_def
    by (auto split: if_splits prod.splits)
qed

theorem get_st_ed_window_ok_witness:
  "(0::int) \<le> 2 \<and> (2::int) < int (length [1, 2, 3, 4, 5, 6, 7, 8, 9, 10 :: int]) \<and> (4::int) \<le> 8
   \<and> get_st_ed [1, 2, 3, 4, 5, 6, 7, 8, 9, 10] 2 8 = Inr (0, 6)
   \<and> window_ok (int (length [1, 2, 3, 4, 5, 6, 7, 8, 9, 10 :: int])) 2 8 (0, 6)"
proof -
  let ?xs = "[1, 2, 3, 4, 5, 6, 7, 8, 9, 10 :: int]"
  have pos: "(0::int) \<le> 2" and inside: "(2::int) < int (length ?xs)" and budget: "(4::int) \<le> 8"
    by simp_all
  from get_st_ed_window_ok [OF pos inside budget]
  obtain w where w: "get_st_ed ?xs 2 8 = Inr w" "window_ok (int (length ?xs)) 2 8 w"
    by blast
  have "get_st_ed ?xs 2 8 = Inr (0, 6)"
    by (rule scenario_A)
  with w have "w = (0, 6)" by simp
  with w pos inside budget show ?thesis by blast
qed

section \<open>Properties of the candidate index\<close>

lemma index_of_member:
  "x \<in> set xs \<Longrightarrow> \<exists>i. index_of xs x = Inr i \<and> i < length xs \<and> xs ! i = x \<and> (\<forall>j<i. xs ! j \<noteq> x)"
proof (induction xs)
  case Nil
  then show ?case by simp
next
  case (Cons y ys)
  show ?case
  proof (cases "y = x")
    case True
    then show ?thesis by simp
  next
    case False
    with Cons.prems have "x \<in> set ys" by simp
    from Cons.IH [OF this] obtain i where i: "index_of ys x = Inr i" "i < length ys" "ys ! i = x"
      "\<forall>j<i. ys ! j \<noteq> x" by blast
    have "\<forall>j<Suc i. (y # ys) ! j \<noteq> x"
    proof (intro allI impI)
      fix j assume "j < Suc i"
      show "(y # ys) ! j \<noteq> x"
      proof (cases j)
        case 0
        then show ?thesis using False by simp
      next
        case (Suc k)
        then show ?thesis using i(4) \<open>j < Suc i\<close> by simp
      qed
    qed
    with False i show ?thesis by simp
  qed
qed

lemma index_of_absent: "x \<notin> set xs \<Longrightarrow> index_of xs x = Inl ValueError"
  by (induction xs) auto

text \<open>
  C9: for an idiom id present in the enlarged candidate sequence the resolved index is
  its (first) position there, \<^verbatim>\<open>enlarged_candidates.index(id)\<close>, and the sequence holds
  the same id at that index; for an absent id the resolved index is the sentinel \<open>-100\<close>.
\<close>

theorem resolve_idx_roundtrip:
  "(idiom \<in> set enlarged_candidates \<longrightarrow>
      (\<exists>i. index_of enlarged_candidates idiom = Inr i
          \<and> resolve_idx enlarged_candidates idiom = Inr (int i)
          \<and> i < length enlarged_candidates \<and> enlarged_candidates ! i = idiom))
   \<and> (idiom \<notin> set enlarged_candidates \<longrightarrow> resolve_idx enlarged_candidates idiom = Inr (- 100))"
proof (intro conjI impI)
  assume mem: "idiom \<in> set enlarged_candidates"
  from index_of_member [OF mem]
  obtain i where i: "index_of enlarged_candidates idiom = Inr i"
    "i < length enlarged_candidates" "enlarged_candidates ! i = idiom"
    by blast
  have "resolve_idx enlarged_candidates idiom = Inr (int i)"
    unfolding resolve_idx_def using mem i(1) by simp
  with i show "\<exists>i. index_of enlarged_candidates idiom = Inr i
          \<and> resolve_idx enlarged_candidates idiom = Inr (int i)
          \<and> i < length enlarged_candidates \<and> enlarged_candidates ! i = idiom"
    by blast
next
  assume "idiom \<notin> set enlarged_candidates"
  then show "resolve_idx enlarged_candidates idiom = Inr (- 100)"
    unfolding resolve_idx_def by simp
qed

theorem resolve_idx_roundtrip_witness:
  "(5::int) \<in> set [3, 5, 8] \<and> resolve_idx [3, 5, 8] 5 = Inr 1 \<and> [3, 5, 8 :: int] ! 1 = 5
   \<and> (4::int) \<notin> set [3, 5, 8] \<and> resolve_idx [3, 5, 8] 4 = Inr (- 100)"
proof -
  have present: "(5::int) \<in> set [3, 5, 8]" and absent: "(4::int) \<notin> set [3, 5, 8]"
    by simp_all
  have idx: "index_of [3, 5, 8 :: int] 5 = Inr (Suc 0)"
    by simp
  from resolve_idx_roundtrip [of 5 "[3, 5, 8]"] present
  obtain i where i: "index_of [3, 5, 8 :: int] 5 = Inr i" "resolve_idx [3, 5, 8] 5 = Inr (int i)"
    "[3, 5, 8 :: int] ! i = 5"
    by blast
  from i(1) idx have "i = Suc 0" by simp
  with i have a: "resolve_idx [3, 5, 8] 5 = Inr 1" "[3, 5, 8 :: int] ! 1 = 5"
    by simp_all
  from resolve_idx_roundtrip [of 4 "[3, 5, 8]"] absent
  have b: "resolve_idx [3, 5, 8] 4 = Inr (- 100)"
    by blast
  from present absent a b show ?thesis by blast
qed

section \<open>Properties of the target resolver\<close>



lemma decide_target_no_record:
  assumes "calo_vocab idiom = Some []" and "idiom \<in> set filtered"
  shows "decide_target calo_vocab filtered idiom idx = Inl IndexError"
  using assms by (simp add: decide_target_def has_annotation_def)






section \<open>Properties of the label weights\<close>

lemma counts_positive_update: "counts_positive c \<Longrightarrow> counts_positive (counter_update c x)"
  by (induction c x rule: counter_update.induct) (auto simp: counts_positive_def)

lemma counter_update_nonempty: "counter_update c x \<noteq> []"
  by (induction c x rule: counter_update.induct) auto

lemma counter_get_update:
  "counter_get (counter_update c x) y = (if y = x then Suc (counter_get c x) else counter_get c y)"
  by (induction c x rule: counter_update.induct) auto

lemma foldl_best_ge:
  "snd (best :: int \<times> nat) \<le> snd (foldl (\<lambda>best kv'. if snd best < snd kv' then kv' else best) best rest)"
proof (induction rest arbitrary: best)
  case Nil
  show ?case by simp
next
  case (Cons kv rest)
  show ?case
  proof (cases "snd best < snd kv")
    case True
    with Cons [of kv] show ?thesis by simp
  next
    case False
    with Cons [of best] show ?thesis by simp
  qed
qed

lemma foldl_best_upper:
  "kv \<in> set rest \<Longrightarrow>
     snd (kv :: int \<times> nat) \<le> snd (foldl (\<lambda>best kv'. if snd best < snd kv' then kv' else best) best rest)"
proof (induction rest arbitrary: best)
  case Nil
  then show ?case by simp
next
  case (Cons kv' rest)
  show ?case
  proof (cases "kv = kv'")
    case True
    have "snd kv' \<le> snd (if snd best < snd kv' then kv' else best)" by simp
    also have "\<dots> \<le> snd (foldl (\<lambda>best kv'. if snd best < snd kv' then kv' else best)
                          (if snd best < snd kv' then kv' else best) rest)"
      by (rule foldl_best_ge)
    finally show ?thesis using True by simp
  next
    case False
    with Cons.prems have "kv \<in> set rest" by simp
    from Cons.IH [OF this] show ?thesis by simp
  qed
qed

lemma foldl_best_member:
  "foldl (\<lambda>best kv'. if snd best < snd kv' then kv' else best) (best :: int \<times> nat) rest
     \<in> set (best # rest)"
proof (induction rest arbitrary: best)
  case Nil
  show ?case by simp
next
  case (Cons kv rest)
  from Cons [of "if snd best < snd kv then kv else best"] show ?case
    by (auto split: if_splits)
qed

lemma most_common1_max:
  assumes "most_common1 c = Inr (k, m)"
  shows "(k, m) \<in> set c" and "\<forall>kv\<in>set c. snd kv \<le> m"
proof -
  from assms obtain kv rest where c: "c = kv # rest" by (cases c) auto
  with assms have km: "(k, m) = foldl (\<lambda>best kv'. if snd best < snd kv' then kv' else best) kv rest"
    by simp
  show "(k, m) \<in> set c" unfolding c km by (rule foldl_best_member)
  show "\<forall>kv\<in>set c. snd kv \<le> m"
  proof
    fix x assume "x \<in> set c"
    then consider "x = kv" | "x \<in> set rest" unfolding c by auto
    then show "snd x \<le> m"
    proof cases
      case 1
      with foldl_best_ge [of kv rest] km [symmetric] show ?thesis by simp
    next
      case 2
      with foldl_best_upper [of x rest kv] km [symmetric] show ?thesis by simp
    qed
  qed
qed

lemma counter_get_cases: "counter_get c x = 0 \<or> (x, counter_get c x) \<in> set c"
  by (induction c x rule: counter_get.induct) auto

lemma counter_get_le_max:
  assumes "most_common1 c = Inr (k, m)"
  shows "counter_get c x \<le> m"
  using counter_get_cases [of c x] most_common1_max(2) [OF assms] by auto

lemma get_label_weights_example: "get_label_weights [(0, 3), (1, 1)] 2 = Inr [1, 1 / 3]"
proof -
  have "[0..<2] = [0, Suc 0]" by (simp add: upt_rec)
  then show ?thesis by (simp add: get_label_weights_def)
qed

text \<open>
  C8 (as stated) fails: the weights are not inverse-frequency weights.  With class 0 counted
  three times and class 1 once, the weights are \<open>[1, 1/3]\<close>: the more common class 0
  receives the larger weight.
\<close>

theorem get_label_weights_not_inverse_counterexample:
  "get_label_weights [(0, 3), (1, 1)] 2 = Inr [1, 1 / 3]
   \<and> counter_get [(0, 3), (1, 1)] 1 < counter_get [(0, 3), (1, 1)] 0
   \<and> \<not> ([1, 1 / 3 :: real] ! 0 \<le> [1, 1 / 3 :: real] ! 1)"
  using get_label_weights_example by simp

text \<open>
  C8 (amended): for every non-empty label-frequency counter (with positive counts), the
  per-class weights are \<open>weight[c] = count[c] / max_count\<close> for \<open>c < num_classes\<close>, where
  \<open>max_count\<close> is the count of the most frequent class; the weights are proportional to the
  frequency, so a rarer category never receives a larger weight than a more common one.
\<close>

theorem get_label_weights_proportional:
  assumes "counter \<noteq> []" and "counts_positive counter"
  shows "\<exists>k max_num ws.
           most_common1 counter = Inr (k, max_num) \<and> (k, max_num) \<in> set counter
         \<and> (\<forall>x. counter_get counter x \<le> max_num)
         \<and> get_label_weights counter num_classes = Inr ws \<and> length ws = num_classes
         \<and> (\<forall>c<num_classes. ws ! c = real (counter_get counter (int c)) / real max_num)
         \<and> (\<forall>a<num_classes. \<forall>b<num_classes.
               counter_get counter (int a) \<le> counter_get counter (int b) \<longrightarrow> ws ! a \<le> ws ! b)"
proof -
  from assms(1) obtain k max_num where mc: "most_common1 counter = Inr (k, max_num)"
    by (cases counter) (auto intro: prod.exhaust)
  have mem: "(k, max_num) \<in> set counter" by (rule most_common1_max(1) [OF mc])
  with assms(2) have pos: "0 < max_num"
    by (auto simp: counts_positive_def list_all_iff)
  define ws where "ws = map (\<lambda>i. real (counter_get counter (int i)) / real max_num) [0..<num_classes]"
  have res: "get_label_weights counter num_classes = Inr ws"
    using mc pos by (simp add: get_label_weights_def ws_def)
  have len: "length ws = num_classes" by (simp add: ws_def)
  have val: "\<forall>c<num_classes. ws ! c = real (counter_get counter (int c)) / real max_num"
    by (simp add: ws_def)
  have mono: "\<forall>a<num_classes. \<forall>b<num_classes.
               counter_get counter (int a) \<le> counter_get counter (int b) \<longrightarrow> ws ! a \<le> ws ! b"
    using pos by (simp add: ws_def divide_right_mono)
  have ub: "\<forall>x. counter_get counter x \<le> max_num"
    using counter_get_le_max [OF mc] by blast
  from mc mem ub res len val mono show ?thesis by blast
qed

theorem get_label_weights_proportional_witness:
  "counter0 \<noteq> [] \<and> counts_positive counter0
   \<and> counter_get counter0 1 \<le> counter_get counter0 0
   \<and> get_label_weights counter0 2 = Inr [1, 1 / 3]
   \<and> [1, 1 / 3 :: real] ! 1 \<le> [1, 1 / 3 :: real] ! 0"
proof -
  have c: "counter0 = [(0, 3), (1, 1)]" by (simp add: counter0_def numeral_3_eq_3)
  have ne: "counter0 \<noteq> []" and pos: "counts_positive counter0"
    by (simp_all add: c counts_positive_def)
  have le: "counter_get counter0 (int 1) \<le> counter_get counter0 (int 0)" by (simp add: c)
  from get_label_weights_proportional [OF ne pos, of 2]
  obtain ws where ws: "get_label_weights counter0 2 = Inr ws"
    and mono: "\<forall>a<2. \<forall>b<2. counter_get counter0 (int a) \<le> counter_get counter0 (int b)
                 \<longrightarrow> ws ! a \<le> ws ! b"
    by blast
  have "get_label_weights counter0 2 = Inr [1, 1 / 3]"
    unfolding c by (rule get_label_weights_example)
  with ws have eq: "ws = [1, 1 / 3]" by simp
  from mono le have "ws ! 1 \<le> ws ! 0" by simp
  with eq ws ne pos le show ?thesis by simp
qed

section \<open>Properties of the example assembly\<close>

lemma py_slice_length:
  assumes "0 \<le> st" and "0 \<le> ed"
  shows "int (length (py_slice xs st ed)) \<le> max 0 (ed - st)"
  using assms unfolding py_slice_def slice_bound_def Let_def by auto

lemma index_of_less: "index_of xs x = Inr k \<Longrightarrow> k < length xs"
  by (induction xs arbitrary: k) (auto split: if_splits sum.splits)

lemma index_of_error: "index_of xs x = Inl e \<Longrightarrow> e = ValueError"
  by (induction xs) (auto split: if_splits sum.splits)

lemma resolve_idx_error: "resolve_idx cands x = Inl e \<Longrightarrow> e = ValueError"
  unfolding resolve_idx_def by (auto split: if_splits sum.splits dest: index_of_error)

lemma decide_target_error:
  "decide_target lexicon labelled x idx = Inl e \<Longrightarrow> e = KeyError \<or> e = IndexError"
  unfolding decide_target_def by (auto split: if_splits option.splits list.splits)

lemma fill_options_error:
  "fill_options population options x rnd = Inl e \<Longrightarrow> e = ValueError \<or> e = IndexError"
  unfolding fill_options_def bind_err_def random_sample_def set_last_def
  by (auto split: if_splits sum.splits)

lemma length_with_context:
  "k < length context_ids \<Longrightarrow>
     length (with_context tok context_ids k tokens) = length context_ids + length tokens + 1"
  by (simp add: with_context_def)

lemma length_without_context: "length (without_context tok tokens) = length tokens + 2"
  by (simp add: without_context_def)

lemma getitem_Inr:
  assumes "getitem self i rnd = Inr item"
  shows "\<exists>example idiom_start tokens.
           i < length (self_ids self) \<and> i < length (self_st_ed self)
         \<and> self_db self (self_ids self ! i) = Some example
         \<and> fill_options (self_idiom_ids self) (ex_options example) (ex_idiom example) rnd
               = Inr (it_options item)
         \<and> index_of (py_slice (ex_input_ids example) (fst (self_st_ed self ! i))
                          (snd (self_st_ed self ! i)))
               (mask_token_id (self_tokenizer self)) = Inr idiom_start
         \<and> self_idiom_input_ids self (ex_idiom example) = Some tokens
         \<and> it_idiom_len item = length tokens
         \<and> it_input_ids item =
               (if self_use_context self
                then with_context (self_tokenizer self)
                       (py_slice (ex_input_ids example) (fst (self_st_ed self ! i))
                          (snd (self_st_ed self ! i))) idiom_start tokens
                else without_context (self_tokenizer self) tokens)
         \<and> it_position item = (if self_use_context self then int idiom_start + 1 else 1)
         \<and> int (length (it_input_ids item)) \<le> self_max_txt_len self + int (length tokens)"
  using assms unfolding getitem_def bind_err_def Let_def
  by (auto split: if_splits option.splits sum.splits)

lemma getitem_AssertionError:
  assumes "getitem self i rnd = Inl AssertionError"
  shows "\<exists>example idiom_start tokens.
           self_db self (self_ids self ! i) = Some example
         \<and> index_of (py_slice (ex_input_ids example) (fst (self_st_ed self ! i))
                          (snd (self_st_ed self ! i)))
               (mask_token_id (self_tokenizer self)) = Inr idiom_start
         \<and> self_idiom_input_ids self (ex_idiom example) = Some tokens
         \<and> \<not> int (length
               (if self_use_context self
                then with_context (self_tokenizer self)
                       (py_slice (ex_input_ids example) (fst (self_st_ed self ! i))
                          (snd (self_st_ed self ! i))) idiom_start tokens
                else without_context (self_tokenizer self) tokens))
              \<le> self_max_txt_len self + int (length tokens)"
  using assms unfolding getitem_def bind_err_def Let_def
  by (auto split: if_splits option.splits sum.splits
        dest: fill_options_error index_of_error resolve_idx_error decide_target_error)

lemma assembled_bound:
  assumes "0 \<le> st" and "0 \<le> ed" and "ed - st \<le> budget - 2"
    and "index_of (py_slice xs st ed) m = Inr k"
  shows "int (length (with_context tok (py_slice xs st ed) k tokens)) \<le> budget + int (length tokens)"
    and "int (length (without_context tok tokens)) \<le> budget + int (length tokens)"
    and "1 \<le> length (py_slice xs st ed)"
    and "int (length (py_slice xs st ed)) \<le> budget - 2"
proof -
  let ?ctx = "py_slice xs st ed"
  have k: "k < length ?ctx" by (rule index_of_less [OF assms(4)])
  then show one: "1 \<le> length ?ctx" by simp
  have "int (length ?ctx) \<le> max 0 (ed - st)" by (rule py_slice_length [OF assms(1,2)])
  with one have "int (length ?ctx) \<le> ed - st" by simp
  with assms(3) show len: "int (length ?ctx) \<le> budget - 2" by simp
  from len k show "int (length (with_context tok ?ctx k tokens)) \<le> budget + int (length tokens)"
    by (simp add: length_with_context)
  from len one show "int (length (without_context tok tokens)) \<le> budget + int (length tokens)"
    by (simp add: length_without_context)
qed

lemma getitem_assert_holds:
  assumes "self_st_ed self ! i = (st, ed)" and "0 \<le> st" and "0 \<le> ed"
    and "ed - st \<le> self_max_txt_len self - 2"
  shows "getitem self i rnd \<noteq> Inl AssertionError"
proof
  assume "getitem self i rnd = Inl AssertionError"
  have st: "fst (self_st_ed self ! i) = st" and ed: "snd (self_st_ed self ! i) = ed"
    using assms(1) by simp_all
  from getitem_AssertionError [OF \<open>getitem self i rnd = Inl AssertionError\<close>, unfolded st ed]
  obtain example :: example and idiom_start and tokens :: "int list" where
    idx: "index_of (py_slice (ex_input_ids example) st ed) (mask_token_id (self_tokenizer self))
            = Inr idiom_start"
    and bad: "\<not> int (length
               (if self_use_context self
                then with_context (self_tokenizer self) (py_slice (ex_input_ids example) st ed)
                       idiom_start tokens
                else without_context (self_tokenizer self) tokens))
              \<le> self_max_txt_len self + int (length tokens)"
    by blast
  from assembled_bound(1,2) [OF assms(2,3,4) idx] bad show False
    by (simp split: if_splits)
qed

lemma getitem_masked_Inr:
  assumes "getitem_masked self i rnd = Inr item"
  shows "\<exists>example idiom_start tokens.
           i < length (self_ids self) \<and> i < length (self_st_ed self)
         \<and> self_db self (self_ids self ! i) = Some example
         \<and> fill_options (self_idiom_ids self) (ex_options example) (ex_idiom example) rnd
               = Inr (mi_options item)
         \<and> index_of (py_slice (ex_input_ids example) (fst (self_st_ed self ! i))
                          (snd (self_st_ed self ! i)))
               (mask_token_id (self_tokenizer self)) = Inr idiom_start
         \<and> self_idiom_input_ids self (ex_idiom example) = Some tokens
         \<and> mi_idiom_len item = length tokens
         \<and> snd (mi_input_ids item) =
               with_context (self_tokenizer self)
                 (py_slice (ex_input_ids example) (fst (self_st_ed self ! i))
                    (snd (self_st_ed self ! i))) idiom_start
                 (replicate (length tokens) (mask_token_id (self_tokenizer self)))
         \<and> fst (mi_input_ids item) =
               (if self_use_context self
                then with_context (self_tokenizer self)
                       (py_slice (ex_input_ids example) (fst (self_st_ed self ! i))
                          (snd (self_st_ed self ! i))) idiom_start tokens
                else without_context (self_tokenizer self) tokens
                     @ replicate (length (snd (mi_input_ids item))
                                  - length (without_context (self_tokenizer self) tokens))
                         (pad_token_id (self_tokenizer self)))
         \<and> mi_position item =
               (if self_use_context self then (int idiom_start + 1, int idiom_start + 1)
                else (1, int idiom_start + 1))
         \<and> int (length (fst (mi_input_ids item))) \<le> self_max_txt_len self + int (length tokens)"
  using assms unfolding getitem_masked_def bind_err_def Let_def
  by (auto split: if_splits option.splits sum.splits)

lemma getitem_masked_AssertionError:
  assumes "getitem_masked self i rnd = Inl AssertionError"
  shows "\<exists>example idiom_start tokens.
           self_db self (self_ids self ! i) = Some example
         \<and> index_of (py_slice (ex_input_ids example) (fst (self_st_ed self ! i))
                          (snd (self_st_ed self ! i)))
               (mask_token_id (self_tokenizer self)) = Inr idiom_start
         \<and> self_idiom_input_ids self (ex_idiom example) = Some tokens
         \<and> \<not> int (length
               (if self_use_context self
                then with_context (self_tokenizer self)
                       (py_slice (ex_input_ids example) (fst (self_st_ed self ! i))
                          (snd (self_st_ed self ! i))) idiom_start tokens
                else without_context (self_tokenizer self) tokens
                     @ replicate
                         (length (with_context (self_tokenizer self)
                            (py_slice (ex_input_ids example) (fst (self_st_ed self ! i))
                               (snd (self_st_ed self ! i))) idiom_start
                            (replicate (length tokens) (mask_token_id (self_tokenizer self))))
                          - length (without_context (self_tokenizer self) tokens))
                         (pad_token_id (self_tokenizer self))))
              \<le> self_max_txt_len self + int (length tokens)"
  using assms unfolding getitem_masked_def bind_err_def Let_def
  by (auto split: if_splits option.splits sum.splits
        dest: fill_options_error index_of_error resolve_idx_error decide_target_error)

lemma padded_bound:
  assumes "0 \<le> st" and "0 \<le> ed" and "ed - st \<le> budget - 2"
    and "index_of (py_slice xs st ed) m = Inr k"
  shows "int (length (without_context tok tokens
            @ replicate (length (with_context tok (py_slice xs st ed) k (replicate (length tokens) m'))
                         - length (without_context tok tokens)) p))
         \<le> budget + int (length tokens)"
proof -
  let ?ctx = "py_slice xs st ed"
  have k: "k < length ?ctx" by (rule index_of_less [OF assms(4)])
  have len: "int (length ?ctx) \<le> budget - 2" by (rule assembled_bound(4) [OF assms])
  from k len show ?thesis
    by (simp add: length_with_context length_without_context)
qed

lemma getitem_masked_assert_holds:
  assumes "self_st_ed self ! i = (st, ed)" and "0 \<le> st" and "0 \<le> ed"
    and "ed - st \<le> self_max_txt_len self - 2"
  shows "getitem_masked self i rnd \<noteq> Inl AssertionError"
proof
  assume a: "getitem_masked self i rnd = Inl AssertionError"
  have st: "fst (self_st_ed self ! i) = st" and ed: "snd (self_st_ed self ! i) = ed"
    using assms(1) by simp_all
  from getitem_masked_AssertionError [OF a, unfolded st ed]
  obtain example :: example and idiom_start and tokens :: "int list" where
    idx: "index_of (py_slice (ex_input_ids example) st ed) (mask_token_id (self_tokenizer self))
            = Inr idiom_start"
    and bad: "\<not> int (length
               (if self_use_context self
                then with_context (self_tokenizer self) (py_slice (ex_input_ids example) st ed)
                       idiom_start tokens
                else without_context (self_tokenizer self) tokens
                     @ replicate
                         (length (with_context (self_tokenizer self)
                            (py_slice (ex_input_ids example) st ed) idiom_start
                            (replicate (length tokens) (mask_token_id (self_tokenizer self))))
                          - length (without_context (self_tokenizer self) tokens))
                         (pad_token_id (self_tokenizer self))))
              \<le> self_max_txt_len self + int (length tokens)"
    by blast
  show False
  proof (cases "self_use_context self")
    case True
    with assembled_bound(1) [OF assms(2,3,4) idx] bad show False by simp
  next
    case False
    with padded_bound [OF assms(2,3,4) idx] bad show False by simp
  qed
qed

lemma getitem_masked_channel_bound:
  assumes "self_st_ed self ! i = (st, ed)" and "0 \<le> st" and "0 \<le> ed"
    and "ed - st \<le> self_max_txt_len self - 2"
    and "getitem_masked self i rnd = Inr item"
  shows "int (length (snd (mi_input_ids item))) \<le> self_max_txt_len self + int (mi_idiom_len item)"
proof -
  have st: "fst (self_st_ed self ! i) = st" and ed: "snd (self_st_ed self ! i) = ed"
    using assms(1) by simp_all
  from getitem_masked_Inr [OF assms(5), unfolded st ed]
  obtain example :: example and idiom_start and tokens :: "int list" where
    idx: "index_of (py_slice (ex_input_ids example) st ed) (mask_token_id (self_tokenizer self))
            = Inr idiom_start"
    and len: "mi_idiom_len item = length tokens"
    and masked: "snd (mi_input_ids item) =
               with_context (self_tokenizer self) (py_slice (ex_input_ids example) st ed)
                 idiom_start (replicate (length tokens) (mask_token_id (self_tokenizer self)))"
    by blast
  from assembled_bound(1) [OF assms(2,3,4) idx,
      of "self_tokenizer self" "replicate (length tokens) (mask_token_id (self_tokenizer self))"]
  show ?thesis unfolding masked len by simp
qed

lemma fill_options_example:
  "fill_options [0, 1, 2, 3, 4, 5, 6, 7, 8, 9] [] 7 rand0 = Inr [7, 5, 4, 3, 2, 1, 0]"
  by code_simp

lemma getitem_example:
  "getitem (dataset0 True) 0 rand0 =
     Inr \<lparr>it_input_ids = [101, 11, 12, 21, 22, 23, 24, 13, 14, 15, 102],
          it_token_type_ids = [0, 0, 0, 0, 0, 0, 0, 0, 0, 0, 0],
          it_attention_mask = [1, 1, 1, 1, 1, 1, 1, 1, 1, 1, 1],
          it_position = 3, it_idiom_len = 4, it_options = [7, 5, 4, 3, 2, 1, 0],
          it_target = (1, 2, 5, 1, 3)\<rparr>"
  by code_simp

lemma getitem_masked_example:
  "getitem_masked (dataset0 False) 0 rand0 =
     Inr \<lparr>mi_input_ids = ([101, 21, 22, 23, 24, 102, 0, 0, 0, 0, 0],
                           [101, 11, 12, 103, 103, 103, 103, 13, 14, 15, 102]),
          mi_token_type_ids = [0, 0, 0, 0, 0, 0, 0, 0, 0, 0, 0],
          mi_attention_mask = ([1, 1, 1, 1, 1, 1, 0, 0, 0, 0, 0],
                               [1, 1, 1, 1, 1, 1, 1, 1, 1, 1, 1]),
          mi_position = (1, 3), mi_idiom_len = 4, mi_options = [7, 5, 4, 3, 2, 1, 0],
          mi_target = (1, 2, 5, 1, 3)\<rparr>"
  by code_simp

lemma valid_perm_facts:
  assumes "valid_perm n perm"
  shows "length perm = n" and "distinct perm" and "set perm = {0..<n}"
proof -
  from assms have m: "mset perm = mset [0..<n]" by (simp add: valid_perm_def)
  then have "size (mset perm) = size (mset [0..<n])" by simp
  then show "length perm = n" by simp
  from m have "distinct perm = distinct [0..<n]" by (rule mset_eq_imp_distinct_iff)
  then show "distinct perm" by simp
  from m have "set perm = set [0..<n]" by (rule mset_eq_setD)
  then show "set perm = {0..<n}" by simp
qed

lemma random_shuffle_mset:
  assumes "valid_perm (length xs) perm"
  shows "mset (random_shuffle xs perm) = mset xs"
proof -
  have "mset (map (\<lambda>i. xs ! i) perm) = image_mset (\<lambda>i. xs ! i) (mset perm)" by simp
  also have "\<dots> = image_mset (\<lambda>i. xs ! i) (mset [0..<length xs])"
    using assms by (simp add: valid_perm_def)
  also have "\<dots> = mset (map (\<lambda>i. xs ! i) [0..<length xs])" by simp
  also have "\<dots> = mset xs" by (simp add: map_nth)
  finally show ?thesis by (simp add: random_shuffle_def)
qed

text \<open>
  A sample is drawn without replacement: it has the size asked for and takes every element
  at most as often as the population holds it.
\<close>

lemma random_sample_sub:
  assumes "k \<le> length population" and "valid_perm (length population) picks"
  shows "random_sample population k picks = Inr (map (\<lambda>i. population ! i) (take k picks))"
    and "length (map (\<lambda>i. population ! i) (take k picks)) = k"
    and "mset (map (\<lambda>i. population ! i) (take k picks)) \<subseteq># mset population"
proof -
  show "random_sample population k picks = Inr (map (\<lambda>i. population ! i) (take k picks))"
    using assms(1) by (simp add: random_sample_def)
  show "length (map (\<lambda>i. population ! i) (take k picks)) = k"
    using assms(1) valid_perm_facts(1) [OF assms(2)] by simp
  have "mset (take k picks) + mset (drop k picks) = mset picks"
    by (simp flip: mset_append)
  then have "mset (take k picks) \<subseteq># mset picks"
    by (metis mset_subset_eq_add_left)
  then have "mset (take k picks) \<subseteq># mset [0..<length population]"
    using assms(2) by (simp add: valid_perm_def)
  then have "image_mset (\<lambda>i. population ! i) (mset (take k picks))
               \<subseteq># image_mset (\<lambda>i. population ! i) (mset [0..<length population])"
    by (rule image_mset_subseteq_mono)
  moreover have "image_mset (\<lambda>i. population ! i) (mset [0..<length population]) = mset population"
  proof -
    have "image_mset (\<lambda>i. population ! i) (mset [0..<length population])
            = mset (map (\<lambda>i. population ! i) [0..<length population])" by simp
    also have "\<dots> = mset population" by (simp add: map_nth)
    finally show ?thesis .
  qed
  ultimately show "mset (map (\<lambda>i. population ! i) (take k picks)) \<subseteq># mset population"
    by simp
qed

lemma replaced_count:
  assumes "count (mset sampled) x \<le> 1" and "sampled \<noteq> []"
  shows "(if x \<notin> set sampled then set_last sampled x else Inr sampled)
           = Inr (if x \<in> set sampled then sampled else sampled[length sampled - 1 := x])"
    and "count (mset (if x \<in> set sampled then sampled else sampled[length sampled - 1 := x])) x = 1"
proof -
  show "(if x \<notin> set sampled then set_last sampled x else Inr sampled)
           = Inr (if x \<in> set sampled then sampled else sampled[length sampled - 1 := x])"
    using assms(2) by (simp add: set_last_def)
  show "count (mset (if x \<in> set sampled then sampled else sampled[length sampled - 1 := x])) x = 1"
  proof (cases "x \<in> set sampled")
    case True
    then have "0 < count (mset sampled) x" by (simp add: count_greater_zero_iff)
    with assms(1) have "count (mset sampled) x = 1" by linarith
    with True show ?thesis by simp
  next
    case False
    let ?r = "sampled[length sampled - 1 := x]"
    have i: "length sampled - 1 < length sampled" using assms(2) by simp
    have "mset ?r = add_mset x (mset sampled - {#sampled ! (length sampled - 1)#})"
      by (rule mset_update [OF i])
    moreover have "count (mset sampled) x = 0" using False by (simp add: count_mset_0_iff)
    moreover have "sampled ! (length sampled - 1) \<noteq> x"
      using False nth_mem [OF i] by auto
    ultimately have "count (mset ?r) x = 1" by simp
    with False show ?thesis by simp
  qed
qed

lemma fill_options_sampled:
  assumes "7 \<le> length idiom_ids" and "count_list idiom_ids idiom \<le> 1"
    and "valid_perm (length idiom_ids) (sample_picks rnd)"
    and "valid_perm 7 (shuffle_perm rnd)"
  shows "\<exists>sampled options.
           random_sample idiom_ids 7 (sample_picks rnd) = Inr sampled
         \<and> length sampled = 7 \<and> mset sampled \<subseteq># mset idiom_ids
         \<and> fill_options idiom_ids [] idiom rnd = Inr options
         \<and> mset options = mset (if idiom \<in> set sampled then sampled else sampled[6 := idiom])
         \<and> length options = 7 \<and> count_list options idiom = 1"
proof -
  let ?sampled = "map (\<lambda>i. idiom_ids ! i) (take 7 (sample_picks rnd))"
  note s = random_sample_sub [OF assms(1,3)]
  have "count (mset ?sampled) idiom \<le> count (mset idiom_ids) idiom"
    using s(3) by (rule mset_subset_eq_count)
  with assms(2) have c: "count (mset ?sampled) idiom \<le> 1" by (simp add: count_mset)
  from s(2) have ne: "?sampled \<noteq> []" by auto
  let ?replaced = "if idiom \<in> set ?sampled then ?sampled else ?sampled[length ?sampled - 1 := idiom]"
  note r = replaced_count [OF c ne]
  have six: "length ?sampled - 1 = 6" using s(2) by simp
  have rep: "?replaced = (if idiom \<in> set ?sampled then ?sampled else ?sampled[6 := idiom])"
    by (simp only: six)
  have rlen: "length ?replaced = 7" using s(2) by simp
  let ?options = "random_shuffle ?replaced (shuffle_perm rnd)"
  have res: "fill_options idiom_ids [] idiom rnd = Inr ?options"
    using s(1) r(1) by (simp add: fill_options_def bind_err_def)
  have perm: "valid_perm (length ?replaced) (shuffle_perm rnd)"
    using assms(4) by (simp only: rlen)
  have m: "mset ?options = mset ?replaced" by (rule random_shuffle_mset [OF perm])
  then have "size (mset ?options) = size (mset ?replaced)" by simp
  then have len: "length ?options = 7" using rlen by simp
  have "count_list ?options idiom = count (mset ?options) idiom" by (simp add: count_mset)
  with m r(2) have cnt: "count_list ?options idiom = 1" by simp
  from m rep have m': "mset ?options = mset (if idiom \<in> set ?sampled then ?sampled else ?sampled[6 := idiom])"
    by simp
  from s(1) s(2) s(3) res m' len cnt show ?thesis by blast
qed

text \<open>
  C5: for every stored window \<open>(st, ed)\<close> with non-negative bounds (as the windowing
  produces them) and \<open>ed - st \<le> max_txt_len - 2\<close>, the length assertion of \<^verbatim>\<open>__getitem__\<close>
  never fails, with or without context, in the plain and in the masked dataset; every
  assembled sequence, visible or masked channel, has length at most
  \<open>max_txt_len + idiom_len\<close>.
\<close>

theorem getitem_length_bound:
  assumes "self_st_ed self ! i = (st, ed)" and "0 \<le> st" and "0 \<le> ed"
    and "ed - st \<le> self_max_txt_len self - 2"
  shows "getitem self i rnd \<noteq> Inl AssertionError
       \<and> (\<forall>item. getitem self i rnd = Inr item \<longrightarrow>
            int (length (it_input_ids item)) \<le> self_max_txt_len self + int (it_idiom_len item))
       \<and> getitem_masked self i rnd \<noteq> Inl AssertionError
       \<and> (\<forall>item. getitem_masked self i rnd = Inr item \<longrightarrow>
            int (length (fst (mi_input_ids item))) \<le> self_max_txt_len self + int (mi_idiom_len item)
          \<and> int (length (snd (mi_input_ids item))) \<le> self_max_txt_len self + int (mi_idiom_len item))"
proof (intro conjI allI impI)
  show "getitem self i rnd \<noteq> Inl AssertionError"
    by (rule getitem_assert_holds [OF assms])
  show "getitem_masked self i rnd \<noteq> Inl AssertionError"
    by (rule getitem_masked_assert_holds [OF assms])
next
  fix item assume "getitem self i rnd = Inr item"
  from getitem_Inr [OF this]
  show "int (length (it_input_ids item)) \<le> self_max_txt_len self + int (it_idiom_len item)"
    by auto
next
  fix item assume r: "getitem_masked self i rnd = Inr item"
  from getitem_masked_Inr [OF r]
  show "int (length (fst (mi_input_ids item))) \<le> self_max_txt_len self + int (mi_idiom_len item)"
    by auto
  show "int (length (snd (mi_input_ids item))) \<le> self_max_txt_len self + int (mi_idiom_len item)"
    by (rule getitem_masked_channel_bound [OF assms r])
qed

theorem getitem_length_bound_witness:
  "self_st_ed (dataset0 True) ! 0 = (0, 6) \<and> self_st_ed (dataset0 False) ! 0 = (0, 6)
   \<and> (0::int) \<le> 0 \<and> (0::int) \<le> 6
   \<and> (6::int) - 0 \<le> self_max_txt_len (dataset0 True) - 2
   \<and> (6::int) - 0 \<le> self_max_txt_len (dataset0 False) - 2
   \<and> (\<exists>item. getitem (dataset0 True) 0 rand0 = Inr item
         \<and> it_input_ids item = [101, 11, 12, 21, 22, 23, 24, 13, 14, 15, 102]
         \<and> int (length (it_input_ids item)) \<le> 8 + 4)
   \<and> (\<exists>item. getitem_masked (dataset0 False) 0 rand0 = Inr item
         \<and> mi_input_ids item = ([101, 21, 22, 23, 24, 102, 0, 0, 0, 0, 0],
                                  [101, 11, 12, 103, 103, 103, 103, 13, 14, 15, 102])
         \<and> int (length (fst (mi_input_ids item))) \<le> 8 + 4
         \<and> int (length (snd (mi_input_ids item))) \<le> 8 + 4)"
proof -
  have w: "self_st_ed (dataset0 True) ! 0 = (0, 6)"
    and b: "(6::int) - 0 \<le> self_max_txt_len (dataset0 True) - 2"
    and m: "self_max_txt_len (dataset0 True) = 8"
    and w': "self_st_ed (dataset0 False) ! 0 = (0, 6)"
    and b': "(6::int) - 0 \<le> self_max_txt_len (dataset0 False) - 2"
    and m': "self_max_txt_len (dataset0 False) = 8"
    by (simp_all add: dataset0_def)
  have s: "(0::int) \<le> 0" and e: "(0::int) \<le> 6" by simp_all
  let ?item = "\<lparr>it_input_ids = [101, 11, 12, 21, 22, 23, 24, 13, 14, 15, 102],
          it_token_type_ids = [0, 0, 0, 0, 0, 0, 0, 0, 0, 0, 0],
          it_attention_mask = [1, 1, 1, 1, 1, 1, 1, 1, 1, 1, 1],
          it_position = 3, it_idiom_len = 4, it_options = [7, 5, 4, 3, 2, 1, 0],
          it_target = (1, 2, 5, 1, 3)\<rparr>"
  let ?mitem = "\<lparr>mi_input_ids = ([101, 21, 22, 23, 24, 102, 0, 0, 0, 0, 0],
                           [101, 11, 12, 103, 103, 103, 103, 13, 14, 15, 102]),
          mi_token_type_ids = [0, 0, 0, 0, 0, 0, 0, 0, 0, 0, 0],
          mi_attention_mask = ([1, 1, 1, 1, 1, 1, 0, 0, 0, 0, 0],
                               [1, 1, 1, 1, 1, 1, 1, 1, 1, 1, 1]),
          mi_position = (1, 3), mi_idiom_len = 4, mi_options = [7, 5, 4, 3, 2, 1, 0],
          mi_target = (1, 2, 5, 1, 3)\<rparr>"
  have r: "getitem (dataset0 True) 0 rand0 = Inr ?item" by (rule getitem_example)
  have r': "getitem_masked (dataset0 False) 0 rand0 = Inr ?mitem" by (rule getitem_masked_example)
  from getitem_length_bound [OF w s e b, of rand0] r
  have "int (length (it_input_ids ?item)) \<le> self_max_txt_len (dataset0 True) + int (it_idiom_len ?item)"
    by blast
  then have c: "int (length (it_input_ids ?item)) \<le> 8 + 4" by (simp add: m)
  from getitem_length_bound [OF w' s e b', of rand0] r'
  have "int (length (fst (mi_input_ids ?mitem)))
          \<le> self_max_txt_len (dataset0 False) + int (mi_idiom_len ?mitem)
      \<and> int (length (snd (mi_input_ids ?mitem)))
          \<le> self_max_txt_len (dataset0 False) + int (mi_idiom_len ?mitem)"
    by blast
  then have c': "int (length (fst (mi_input_ids ?mitem))) \<le> 8 + 4
      \<and> int (length (snd (mi_input_ids ?mitem))) \<le> 8 + 4" by (simp add: m')
  from w w' s e b b' r r' c c' show ?thesis by simp
qed

lemma fill_options_small_population:
  "fill_options [0, 1, 2, 3, 4, 5] [] 3 rand6 = Inl ValueError"
  by code_simp

lemma fill_options_repeated_id:
  "fill_options [7, 7, 1, 2, 3, 4, 5, 6] [] 7 rand8 = Inr [7, 7, 1, 2, 3, 4, 5]"
  by code_simp

lemma valid_perm_6: "valid_perm 6 [0, 1, 2, 3, 4, 5]"
proof -
  have "[0..<6] = [0, 1, 2, 3, 4, 5]" by (simp add: upt_rec)
  then show ?thesis by (simp only: valid_perm_def)
qed

lemma valid_perm_7: "valid_perm 7 [0, 1, 2, 3, 4, 5, 6]"
proof -
  have "[0..<7] = [0, 1, 2, 3, 4, 5, 6]" by (simp add: upt_rec)
  then show ?thesis by (simp only: valid_perm_def)
qed

lemma valid_perm_7_rev: "valid_perm 7 [6, 5, 4, 3, 2, 1, 0]"
proof -
  have "[0..<7] = [0, 1, 2, 3, 4, 5, 6]" by (simp add: upt_rec)
  then show ?thesis by (simp add: valid_perm_def)
qed

lemma valid_perm_8: "valid_perm 8 [0, 1, 2, 3, 4, 5, 6, 7]"
proof -
  have "[0..<8] = [0, 1, 2, 3, 4, 5, 6, 7]" by (simp add: upt_rec)
  then show ?thesis by (simp only: valid_perm_def)
qed

lemma valid_perm_10: "valid_perm 10 [0, 1, 2, 3, 4, 5, 6, 7, 8, 9]"
proof -
  have "[0..<10] = [0, 1, 2, 3, 4, 5, 6, 7, 8, 9]" by (simp add: upt_rec)
  then show ?thesis by (simp only: valid_perm_def)
qed

text \<open>
  C7 (as stated) fails.  The code draws 7 ids, not 6: from a population of six ids
  \<^verbatim>\<open>random.sample(self.idiom_ids, k=7)\<close> raises ValueError, so an empty options list is
  replaced by no list at all.  And the draw is by position: when \<^verbatim>\<open>self.idiom_ids\<close> holds the
  true idiom twice, both occurrences can be drawn, and the resulting options list then
  contains the true idiom twice.
\<close>

theorem fill_options_population_counterexample:
  "valid_perm (length [0, 1, 2, 3, 4, 5 :: int]) (sample_picks rand6)
   \<and> valid_perm 7 (shuffle_perm rand6)
   \<and> fill_options [0, 1, 2, 3, 4, 5] [] 3 rand6 = Inl ValueError
   \<and> valid_perm (length [7, 7, 1, 2, 3, 4, 5, 6 :: int]) (sample_picks rand8)
   \<and> valid_perm 7 (shuffle_perm rand8)
   \<and> fill_options [7, 7, 1, 2, 3, 4, 5, 6] [] 7 rand8 = Inr [7, 7, 1, 2, 3, 4, 5]
   \<and> count_list [7, 7, 1, 2, 3, 4, 5 :: int] 7 = 2"
proof -
  have l6: "length [0, 1, 2, 3, 4, 5 :: int] = 6" and l8: "length [7, 7, 1, 2, 3, 4, 5, 6 :: int] = 8"
    by simp_all
  have p6: "sample_picks rand6 = [0, 1, 2, 3, 4, 5]" and s6: "shuffle_perm rand6 = [0, 1, 2, 3, 4, 5, 6]"
    and p8: "sample_picks rand8 = [0, 1, 2, 3, 4, 5, 6, 7]"
    and s8: "shuffle_perm rand8 = [0, 1, 2, 3, 4, 5, 6]"
    by (simp_all add: rand6_def rand8_def)
  have a: "valid_perm (length [0, 1, 2, 3, 4, 5 :: int]) (sample_picks rand6)"
    unfolding l6 p6 by (rule valid_perm_6)
  have b: "valid_perm 7 (shuffle_perm rand6)" unfolding s6 by (rule valid_perm_7)
  have c: "valid_perm (length [7, 7, 1, 2, 3, 4, 5, 6 :: int]) (sample_picks rand8)"
    unfolding l8 p8 by (rule valid_perm_8)
  have d: "valid_perm 7 (shuffle_perm rand8)" unfolding s8 by (rule valid_perm_7)
  have e: "count_list [7, 7, 1, 2, 3, 4, 5 :: int] 7 = 2" by simp
  from a b c d e fill_options_small_population fill_options_repeated_id
  show ?thesis by blast
qed

text \<open>
  C7 (amended): for every example whose options list is empty on input, the per-instance
  pipeline replaces it by a sample of 7 idiom ids drawn without replacement from
  \<^verbatim>\<open>self.idiom_ids\<close>, overwrites the last drawn id with the true idiom if the draw missed
  it, and shuffles.  When \<^verbatim>\<open>self.idiom_ids\<close> holds at least 7 ids and the true idiom at most
  once, the sample has 7 ids, each taken at most as often as \<^verbatim>\<open>self.idiom_ids\<close> holds it, the
  options list is a rearrangement of the sample (with its last id replaced by the true
  idiom if the sample missed it), it has length exactly 7 and contains the true idiom
  exactly once; it is the options list both \<^verbatim>\<open>__getitem__\<close> variants return.
\<close>

theorem fill_options_seven_once:
  assumes "7 \<le> length (self_idiom_ids self)"
    and "count_list (self_idiom_ids self) (ex_idiom example) \<le> 1"
    and "valid_perm (length (self_idiom_ids self)) (sample_picks rnd)"
    and "valid_perm 7 (shuffle_perm rnd)"
    and "self_db self (self_ids self ! i) = Some example"
    and "ex_options example = []"
  shows "\<exists>sampled options.
           random_sample (self_idiom_ids self) 7 (sample_picks rnd) = Inr sampled
         \<and> length sampled = 7 \<and> mset sampled \<subseteq># mset (self_idiom_ids self)
         \<and> fill_options (self_idiom_ids self) (ex_options example) (ex_idiom example) rnd
               = Inr options
         \<and> mset options =
               mset (if ex_idiom example \<in> set sampled then sampled
                     else sampled[6 := ex_idiom example])
         \<and> length options = 7 \<and> count_list options (ex_idiom example) = 1
         \<and> (\<forall>item. getitem self i rnd = Inr item \<longrightarrow> it_options item = options)
         \<and> (\<forall>item. getitem_masked self i rnd = Inr item \<longrightarrow> mi_options item = options)"
proof -
  from fill_options_sampled [OF assms(1,2,3,4)] assms(6)
  obtain sampled options where o:
    "random_sample (self_idiom_ids self) 7 (sample_picks rnd) = Inr sampled"
    "length sampled = 7" "mset sampled \<subseteq># mset (self_idiom_ids self)"
    "fill_options (self_idiom_ids self) (ex_options example) (ex_idiom example) rnd = Inr options"
    "mset options =
       mset (if ex_idiom example \<in> set sampled then sampled else sampled[6 := ex_idiom example])"
    "length options = 7" "count_list options (ex_idiom example) = 1"
    by auto
  have a: "\<forall>item. getitem self i rnd = Inr item \<longrightarrow> it_options item = options"
  proof (intro allI impI)
    fix item assume "getitem self i rnd = Inr item"
    from getitem_Inr [OF this] assms(5) o(4)
    show "it_options item = options" by auto
  qed
  have b: "\<forall>item. getitem_masked self i rnd = Inr item \<longrightarrow> mi_options item = options"
  proof (intro allI impI)
    fix item assume "getitem_masked self i rnd = Inr item"
    from getitem_masked_Inr [OF this] assms(5) o(4)
    show "mi_options item = options" by auto
  qed
  from o a b show ?thesis by blast
qed

lemma random_sample_example:
  "random_sample (self_idiom_ids (dataset0 True)) 7 (sample_picks rand0) = Inr [0, 1, 2, 3, 4, 5, 6]"
  by code_simp

theorem fill_options_seven_once_witness:
  "7 \<le> length (self_idiom_ids (dataset0 True))
   \<and> count_list (self_idiom_ids (dataset0 True)) (ex_idiom example0) \<le> 1
   \<and> valid_perm (length (self_idiom_ids (dataset0 True))) (sample_picks rand0)
   \<and> valid_perm 7 (shuffle_perm rand0)
   \<and> self_db (dataset0 True) (self_ids (dataset0 True) ! 0) = Some example0
   \<and> ex_options example0 = []
   \<and> random_sample (self_idiom_ids (dataset0 True)) 7 (sample_picks rand0)
         = Inr [0, 1, 2, 3, 4, 5, 6]
   \<and> (\<exists>item. getitem (dataset0 True) 0 rand0 = Inr item
         \<and> it_options item = [7, 5, 4, 3, 2, 1, 0]
         \<and> mset (it_options item) = mset ([0, 1, 2, 3, 4, 5, 6][6 := ex_idiom example0])
         \<and> length (it_options item) = 7
         \<and> count_list (it_options item) (ex_idiom example0) = 1)"
proof -
  have n: "7 \<le> length (self_idiom_ids (dataset0 True))"
    and c: "count_list (self_idiom_ids (dataset0 True)) (ex_idiom example0) \<le> 1"
    by (simp_all add: dataset0_def example0_def)
  have "length (self_idiom_ids (dataset0 True)) = 10"
    and "sample_picks rand0 = [0, 1, 2, 3, 4, 5, 6, 7, 8, 9]"
    and "shuffle_perm rand0 = [6, 5, 4, 3, 2, 1, 0]"
    by (simp_all add: dataset0_def rand0_def)
  then have p: "valid_perm (length (self_idiom_ids (dataset0 True))) (sample_picks rand0)"
    and q: "valid_perm 7 (shuffle_perm rand0)"
    using valid_perm_10 valid_perm_7_rev by (simp_all only:)
  have e: "self_db (dataset0 True) (self_ids (dataset0 True) ! 0) = Some example0"
    by (simp add: dataset0_def)
  have em: "ex_options example0 = []" by (simp add: example0_def)
  have absent: "ex_idiom example0 \<notin> set [0, 1, 2, 3, 4, 5, 6 :: int]"
    by (simp add: example0_def)
  let ?item = "\<lparr>it_input_ids = [101, 11, 12, 21, 22, 23, 24, 13, 14, 15, 102],
          it_token_type_ids = [0, 0, 0, 0, 0, 0, 0, 0, 0, 0, 0],
          it_attention_mask = [1, 1, 1, 1, 1, 1, 1, 1, 1, 1, 1],
          it_position = 3, it_idiom_len = 4, it_options = [7, 5, 4, 3, 2, 1, 0],
          it_target = (1, 2, 5, 1, 3)\<rparr>"
  have r: "getitem (dataset0 True) 0 rand0 = Inr ?item" by (rule getitem_example)
  have sel: "it_options ?item = [7, 5, 4, 3, 2, 1, 0]" by simp
  from fill_options_seven_once [OF n c p q e em]
  obtain sampled options where o:
    "random_sample (self_idiom_ids (dataset0 True)) 7 (sample_picks rand0) = Inr sampled"
    "mset options =
       mset (if ex_idiom example0 \<in> set sampled then sampled else sampled[6 := ex_idiom example0])"
    "length options = 7" "count_list options (ex_idiom example0) = 1"
    "\<forall>item. getitem (dataset0 True) 0 rand0 = Inr item \<longrightarrow> it_options item = options"
    by blast
  from o(1) random_sample_example have s: "sampled = [0, 1, 2, 3, 4, 5, 6]" by simp
  from o(5) r have oi: "it_options ?item = options" by blast
  from o(2) absent have m: "mset options = mset ([0, 1, 2, 3, 4, 5, 6][6 := ex_idiom example0])"
    unfolding s by simp
  from oi o(3,4) m
  have "mset (it_options ?item) = mset ([0, 1, 2, 3, 4, 5, 6][6 := ex_idiom example0])
      \<and> length (it_options ?item) = 7 \<and> count_list (it_options ?item) (ex_idiom example0) = 1"
    by (simp only:)
  with r sel have "\<exists>item. getitem (dataset0 True) 0 rand0 = Inr item
         \<and> it_options item = [7, 5, 4, 3, 2, 1, 0]
         \<and> mset (it_options item) = mset ([0, 1, 2, 3, 4, 5, 6][6 := ex_idiom example0])
         \<and> length (it_options item) = 7
         \<and> count_list (it_options item) (ex_idiom example0) = 1"
    by blast
  with n c p q e em random_sample_example show ?thesis by blast
qed

section \<open>Properties of the pass over the examples\<close>

lemma get_ids_and_lens_loop_inv:
  assumes "get_ids_and_lens_loop budget db allowed lexicon labelled id2len acc = Inr r"
    and "windows_ok budget acc"
  shows "windows_ok budget r"
  using assms
proof (induction id2len arbitrary: acc)
  case Nil
  then show ?case by simp
next
  case (Cons kv rest)
  obtain qid len where kv: "kv = (qid, len)" by (cases kv)
  show ?case
  proof (cases "qid \<in> set allowed")
    case False
    with Cons.prems kv have "get_ids_and_lens_loop budget db allowed lexicon labelled rest acc = Inr r"
      by simp
    from Cons.IH [OF this Cons.prems(2)] show ?thesis .
  next
    case True
    with Cons.prems(1) kv obtain example :: example and counters w where
      c: "count_labels lexicon labelled (ex_idiom example)
            (r_fine_emotion_counter acc, r_sentiment_counter acc) = Inr counters"
      and w: "get_st_ed (ex_input_ids example) (ex_position example) budget = Inr w"
      and rest: "get_ids_and_lens_loop budget db allowed lexicon labelled rest
               \<lparr>r_lens = r_lens acc @ [snd w - fst w + 1],
                r_ids = r_ids acc @ [qid],
                r_st_ed = r_st_ed acc @ [w],
                r_fine_emotion_counter = fst counters,
                r_sentiment_counter = snd counters\<rparr> = Inr r"
      by (auto simp: bind_err_def split: option.splits sum.splits)
    from c Cons.prems(2) have pos: "counts_positive (fst counters)" "counts_positive (snd counters)"
      by (auto simp: count_labels_def windows_ok_def counts_positive_update
            split: if_splits option.splits list.splits)
    from w have "snd w - fst w \<le> budget - 2"
      unfolding get_st_ed_def Let_def by (auto split: if_splits prod.splits)
    with pos Cons.prems(2) have "windows_ok budget
               \<lparr>r_lens = r_lens acc @ [snd w - fst w + 1],
                r_ids = r_ids acc @ [qid],
                r_st_ed = r_st_ed acc @ [w],
                r_fine_emotion_counter = fst counters,
                r_sentiment_counter = snd counters\<rparr>"
      by (simp add: windows_ok_def)
    from Cons.IH [OF rest this] show ?thesis .
  qed
qed

text \<open>
  The windows \<^verbatim>\<open>__getitem__\<close> reads from \<^verbatim>\<open>self.st_ed\<close> and the counters handed to
  \<^verbatim>\<open>get_label_weights\<close> come from this pass: the windows leave room for the two boundary
  markers and the counters hold positive counts only.
\<close>

lemma get_ids_and_lens_windows:
  assumes "get_ids_and_lens budget db allowed lexicon labelled id2len = Inr r"
  shows "list_all (\<lambda>w. snd w - fst w \<le> budget - 2) (r_st_ed r)"
    and "counts_positive (r_fine_emotion_counter r)"
    and "counts_positive (r_sentiment_counter r)"
proof -
  have "windows_ok budget \<lparr>r_lens = [], r_ids = [], r_st_ed = [],
        r_fine_emotion_counter = [], r_sentiment_counter = []\<rparr>"
    by (simp add: windows_ok_def counts_positive_def)
  from get_ids_and_lens_loop_inv [OF assms [unfolded get_ids_and_lens_def] this]
  show "list_all (\<lambda>w. snd w - fst w \<le> budget - 2) (r_st_ed r)"
    and "counts_positive (r_fine_emotion_counter r)"
    and "counts_positive (r_sentiment_counter r)"
    by (simp_all add: windows_ok_def)
qed

lemma get_ids_and_lens_example:
  "get_ids_and_lens 8 [''a'' \<mapsto> example0] [''a''] lexicon0 [7, 9] [(''a'', 10), (''b'', 4)] =
     Inr \<lparr>r_lens = [7], r_ids = [''a''], r_st_ed = [(0, 6)],
          r_fine_emotion_counter = [(5, 1)], r_sentiment_counter = [(1, 1)]\<rparr>"
  by code_simp

text \<open>
  With a budget and mask positions that are not negative, no stored window has a negative
  bound.
\<close>

lemma get_ids_and_lens_loop_nonneg:
  assumes "get_ids_and_lens_loop budget db allowed lexicon labelled id2len acc = Inr r"
    and "list_all (\<lambda>w. 0 \<le> fst w \<and> 0 \<le> snd w) (r_st_ed acc)"
    and "0 \<le> budget" and "\<And>qid example. db qid = Some example \<Longrightarrow> 0 \<le> ex_position example"
  shows "list_all (\<lambda>w. 0 \<le> fst w \<and> 0 \<le> snd w) (r_st_ed r)"
  using assms(1,2)
proof (induction id2len arbitrary: acc)
  case Nil
  then show ?case by simp
next
  case (Cons kv rest)
  obtain qid len where kv: "kv = (qid, len)" by (cases kv)
  show ?case
  proof (cases "qid \<in> set allowed")
    case False
    with Cons.prems kv have "get_ids_and_lens_loop budget db allowed lexicon labelled rest acc = Inr r"
      by simp
    from Cons.IH [OF this Cons.prems(2)] show ?thesis .
  next
    case True
    with Cons.prems(1) kv obtain example :: example and counters w where
      e: "db qid = Some example"
      and w: "get_st_ed (ex_input_ids example) (ex_position example) budget = Inr w"
      and rest: "get_ids_and_lens_loop budget db allowed lexicon labelled rest
               \<lparr>r_lens = r_lens acc @ [snd w - fst w + 1],
                r_ids = r_ids acc @ [qid],
                r_st_ed = r_st_ed acc @ [w],
                r_fine_emotion_counter = fst counters,
                r_sentiment_counter = snd counters\<rparr> = Inr r"
      by (auto simp: bind_err_def split: option.splits sum.splits)
    from w have "get_st_ed (ex_input_ids example) (ex_position example) budget = Inr (fst w, snd w)"
      by simp
    from get_st_ed_nonneg [OF assms(4) [OF e] assms(3) this]
    have "0 \<le> fst w \<and> 0 \<le> snd w" .
    with Cons.prems(2) have "list_all (\<lambda>w. 0 \<le> fst w \<and> 0 \<le> snd w)
               (r_st_ed \<lparr>r_lens = r_lens acc @ [snd w - fst w + 1],
                r_ids = r_ids acc @ [qid],
                r_st_ed = r_st_ed acc @ [w],
                r_fine_emotion_counter = fst counters,
                r_sentiment_counter = snd counters\<rparr>)"
      by simp
    from Cons.IH [OF rest this] show ?thesis .
  qed
qed

section \<open>Properties of the batch collation\<close>

lemma length_arange: "length (arange a b) = nat (b - a)"
  by (simp add: arange_def)

lemma nth_arange: "j < nat (b - a) \<Longrightarrow> arange a b ! j = a + int j"
  by (simp add: arange_def)

lemma py_max_Max: "widths \<noteq> [] \<Longrightarrow> py_max widths = Inr (Max (set widths))"
proof (cases widths)
  case Nil
  assume "widths \<noteq> []"
  with Nil show ?thesis by simp
next
  case (Cons x xs)
  have "fold max xs x = Max (set (x # xs))" by (rule Max.set_eq_fold [symmetric])
  with Cons show ?thesis by simp
qed

lemma assign_prefix_fits:
  "w \<le> length row \<Longrightarrow> assign_prefix row w (arange p (p + int w)) = Inr (arange p (p + int w) @ drop w row)"
  by (simp add: assign_prefix_def length_arange)

lemma fill_gather_rows:
  assumes "i + length pws \<le> length g"
    and "\<forall>k<length pws. snd (pws ! k) \<le> length (g ! (i + k))"
  shows "\<exists>g'. fill_gather i pws g = Inr g' \<and> length g' = length g
           \<and> (\<forall>k<length g. g' ! k =
                 (if i \<le> k \<and> k < i + length pws
                  then arange (fst (pws ! (k - i))) (fst (pws ! (k - i)) + int (snd (pws ! (k - i))))
                         @ drop (snd (pws ! (k - i))) (g ! k)
                  else g ! k))"
  using assms
proof (induction pws arbitrary: i g)
  case Nil
  then show ?case by auto
next
  case (Cons pw rest)
  obtain p w where pw: "pw = (p, w)" by (cases pw)
  from Cons.prems(1) have i: "i < length g" by simp
  from Cons.prems(2) have "snd ((pw # rest) ! 0) \<le> length (g ! (i + 0))" by blast
  then have w: "w \<le> length (g ! i)" by (simp add: pw)
  let ?row = "arange p (p + int w) @ drop w (g ! i)"
  let ?g = "g[i := ?row]"
  have step: "fill_gather i (pw # rest) g = fill_gather (Suc i) rest ?g"
    using i assign_prefix_fits [OF w] by (simp add: pw bind_err_def)
  have a: "Suc i + length rest \<le> length ?g" using Cons.prems(1) by simp
  have b: "\<forall>k<length rest. snd (rest ! k) \<le> length (?g ! (Suc i + k))"
  proof (intro allI impI)
    fix k assume k: "k < length rest"
    then have "Suc k < length (pw # rest)" by simp
    with Cons.prems(2) have "snd ((pw # rest) ! Suc k) \<le> length (g ! (i + Suc k))" by blast
    then show "snd (rest ! k) \<le> length (?g ! (Suc i + k))" by simp
  qed
  from Cons.IH [OF a b] obtain g' where g': "fill_gather (Suc i) rest ?g = Inr g'"
    "length g' = length ?g"
    "\<forall>k<length ?g. g' ! k =
        (if Suc i \<le> k \<and> k < Suc i + length rest
         then arange (fst (rest ! (k - Suc i))) (fst (rest ! (k - Suc i)) + int (snd (rest ! (k - Suc i))))
                @ drop (snd (rest ! (k - Suc i))) (?g ! k)
         else ?g ! k)"
    by blast
  have rows: "\<forall>k<length g. g' ! k =
                 (if i \<le> k \<and> k < i + length (pw # rest)
                  then arange (fst ((pw # rest) ! (k - i)))
                         (fst ((pw # rest) ! (k - i)) + int (snd ((pw # rest) ! (k - i))))
                         @ drop (snd ((pw # rest) ! (k - i))) (g ! k)
                  else g ! k)"
  proof (intro allI impI)
    fix k assume k: "k < length g"
    with g'(3) have gk: "g' ! k =
        (if Suc i \<le> k \<and> k < Suc i + length rest
         then arange (fst (rest ! (k - Suc i))) (fst (rest ! (k - Suc i)) + int (snd (rest ! (k - Suc i))))
                @ drop (snd (rest ! (k - Suc i))) (?g ! k)
         else ?g ! k)" by simp
    consider "k < i" | "k = i" | "i < k" by linarith
    then show "g' ! k =
                 (if i \<le> k \<and> k < i + length (pw # rest)
                  then arange (fst ((pw # rest) ! (k - i)))
                         (fst ((pw # rest) ! (k - i)) + int (snd ((pw # rest) ! (k - i))))
                         @ drop (snd ((pw # rest) ! (k - i))) (g ! k)
                  else g ! k)"
    proof cases
      case 1
      with gk show ?thesis by simp
    next
      case 2
      with gk i show ?thesis by (simp add: pw)
    next
      case 3
      then obtain d where d: "k - i = Suc d" "k - Suc i = d" by (cases "k - i") auto
      from 3 gk show ?thesis by (simp add: d)
    qed
  qed
  from step g'(1,2) rows show ?case by simp
qed

lemma build_gather_index_ok:
  assumes "widths \<noteq> []" and "length positions = length widths"
  shows "\<exists>g. build_gather_index (length widths) positions widths = Inr g
           \<and> gather_rows_ok positions widths g"
proof -
  let ?W = "Max (set widths)"
  let ?n = "length widths"
  let ?g0 = "replicate ?n (arange 0 (int ?W))"
  let ?pws = "zip positions widths"
  have len: "length ?pws = ?n" using assms(2) by simp
  have le: "\<forall>k<?n. widths ! k \<le> ?W" by simp
  have a: "0 + length ?pws \<le> length ?g0" using len by simp
  have b: "\<forall>k<length ?pws. snd (?pws ! k) \<le> length (?g0 ! (0 + k))"
    using len le by (simp add: length_arange)
  from fill_gather_rows [OF a b] obtain g where g: "fill_gather 0 ?pws ?g0 = Inr g"
    "length g = length ?g0"
    "\<forall>k<length ?g0. g ! k =
        (if 0 \<le> k \<and> k < 0 + length ?pws
         then arange (fst (?pws ! (k - 0))) (fst (?pws ! (k - 0)) + int (snd (?pws ! (k - 0))))
                @ drop (snd (?pws ! (k - 0))) (?g0 ! k)
         else ?g0 ! k)"
    by blast
  have res: "build_gather_index ?n positions widths = Inr g"
    using g(1) py_max_Max [OF assms(1)] by (simp add: build_gather_index_def bind_err_def)
  have row: "\<forall>k<?n. g ! k =
      arange (positions ! k) (positions ! k + int (widths ! k)) @ drop (widths ! k) (arange 0 (int ?W))"
    using g(3) len assms(2) by simp
  have "gather_rows_ok positions widths g"
    unfolding gather_rows_ok_def
  proof (intro conjI allI impI)
    show "length g = ?n" using g(2) by simp
  next
    fix i assume i: "i < ?n"
    with le have w: "widths ! i \<le> ?W" by blast
    then show "length (g ! i) = ?W" using row i by (simp add: length_arange)
  next
    fix i j assume i: "i < ?n" and j: "j < widths ! i"
    then show "g ! i ! j = positions ! i + int j"
      using row by (simp add: nth_append length_arange nth_arange)
  next
    fix i j assume i: "i < ?n" and j: "widths ! i \<le> j \<and> j < ?W"
    then have "g ! i ! j = drop (widths ! i) (arange 0 (int ?W)) ! (j - widths ! i)"
      using row by (simp add: nth_append length_arange)
    also have "\<dots> = arange 0 (int ?W) ! j" using j by (simp add: length_arange)
    also have "\<dots> = int j" using j by (simp add: nth_arange)
    finally show "g ! i ! j = int j" .
  qed
  with res show ?thesis by blast
qed

lemma pad_sequence_ok:
  assumes "seqs \<noteq> []"
  shows "pad_sequence seqs =
           Inr (map (\<lambda>s. s @ replicate (Max (set (map length seqs)) - length s) 0) seqs)"
proof -
  from assms have "map length seqs \<noteq> []" by simp
  from py_max_Max [OF this] show ?thesis by (simp add: pad_sequence_def bind_err_def)
qed

lemma pad_sequence_length:
  assumes "pad_sequence seqs = Inr padded" and "seqs \<noteq> []" and "row \<in> set padded"
  shows "length row = Max (set (map length seqs))"
proof -
  from assms(1) pad_sequence_ok [OF assms(2)]
  have "padded = map (\<lambda>s. s @ replicate (Max (set (map length seqs)) - length s) 0) seqs"
    by simp
  with assms(3) obtain s where s: "s \<in> set seqs"
    "row = s @ replicate (Max (set (map length seqs)) - length s) 0" by auto
  from s(1) have "length s \<le> Max (set (map length seqs))" by simp
  with s(2) show ?thesis by simp
qed

lemma collate_fn_Inr:
  assumes "collate_fn inputs = Inr b"
  shows "inputs \<noteq> []"
    and "pad_sequence (map it_input_ids inputs) = Inr (b_input_ids b)"
    and "build_gather_index (length inputs) (map it_position inputs) (map it_idiom_len inputs)
           = Inr (b_gather_index b)"
  using assms unfolding collate_fn_def bind_err_def
  by (auto split: if_splits sum.splits)

lemma collate_fn_returns:
  assumes "inputs \<noteq> []" and "tensor_2d (map it_options inputs) \<noteq> Inl ValueError"
  shows "\<exists>b. collate_fn inputs = Inr b"
proof -
  have ne: "map f inputs \<noteq> []" for f :: "item \<Rightarrow> int list" using assms(1) by simp
  from build_gather_index_ok [of "map it_idiom_len inputs" "map it_position inputs"] assms(1)
  obtain g where g: "build_gather_index (length inputs) (map it_position inputs)
                       (map it_idiom_len inputs) = Inr g" by auto
  from assms(2) obtain opts where opts: "tensor_2d (map it_options inputs) = Inr opts"
    by (auto simp: tensor_2d_def split: if_splits)
  show ?thesis
    unfolding collate_fn_def
    using assms(1) g opts pad_sequence_ok [OF ne [of it_input_ids]]
      pad_sequence_ok [OF ne [of it_token_type_ids]] pad_sequence_ok [OF ne [of it_attention_mask]]
    by (simp add: bind_err_def)
qed

lemma collate_fn_masked_Inr:
  assumes "collate_fn_masked inputs = Inr b"
  shows "inputs \<noteq> []"
    and "build_gather_index (length inputs) (map (\<lambda>x. fst (mi_position x)) inputs)
           (map mi_idiom_len inputs) = Inr (fst (mb_gather_index b))"
    and "build_gather_index (length inputs) (map (\<lambda>x. snd (mi_position x)) inputs)
           (map mi_idiom_len inputs) = Inr (snd (mb_gather_index b))"
  using assms unfolding collate_fn_masked_def bind_err_def
  by (auto split: if_splits sum.splits)

lemma collate_fn_example:
  "collate_fn [item_a, item_b] =
     Inr \<lparr>b_input_ids = [[101, 11, 41, 42, 12, 102], [101, 51, 52, 53, 102, 0]],
          b_token_type_ids = [[0, 0, 0, 0, 0, 0], [0, 0, 0, 0, 0, 0]],
          b_attention_mask = [[1, 1, 1, 1, 1, 1], [1, 1, 1, 1, 1, 0]],
          b_gather_index = [[2, 3, 2], [1, 2, 3]],
          b_positions = [2, 1],
          b_option_ids = [[7, 5, 4, 3, 2, 1, 0], [9, 8, 7, 6, 5, 4, 3]],
          b_targets = [(1, 2, 5, 1, 3), (2, - 100, - 100, - 100, 0)]\<rparr>"
  by code_simp

lemma collate_fn_masked_example:
  "collate_fn_masked [masked_item_a, masked_item_b] =
     Inr \<lparr>mb_input_ids = ([[101, 41, 42, 102, 0, 0], [101, 51, 52, 53, 102, 0]],
                           [[101, 11, 103, 103, 12, 102], [101, 103, 103, 103, 102, 0]]),
          mb_token_type_ids = ([[0, 0, 0, 0, 0, 0], [0, 0, 0, 0, 0, 0]],
                               [[0, 0, 0, 0, 0, 0], [0, 0, 0, 0, 0, 0]]),
          mb_attention_mask = ([[1, 1, 1, 1, 0, 0], [1, 1, 1, 1, 1, 0]],
                               [[1, 1, 1, 1, 1, 1], [1, 1, 1, 1, 1, 0]]),
          mb_gather_index = ([[1, 2, 2], [1, 2, 3]], [[2, 3, 2], [1, 2, 3]]),
          mb_positions = [(1, 2), (1, 1)],
          mb_option_ids = [[7, 5, 4, 3, 2, 1, 0], [9, 8, 7, 6, 5, 4, 3]],
          mb_targets = [(1, 2, 5, 1, 3), (2, - 100, - 100, - 100, 0)]\<rparr>"
  by code_simp

text \<open>
  C2: for every non-empty batch the gather index of the collator (in the masked dataset,
  each of its two gather indices) has one row per instance and width \<open>W\<close>, the largest
  span width of the batch; the first \<open>width_i\<close> entries of row \<open>i\<close> are
  \<open>span_start_i, span_start_i + 1, ...\<close> and every entry in a column \<open>j \<ge> width_i\<close> is \<open>j\<close>,
  the default fill \<open>range(0, W)\<close>.  The collator returns a batch whenever the option lists
  have one length.
\<close>

theorem collate_fn_gather_index:
  assumes "inputs \<noteq> []" and "minputs \<noteq> []"
  shows "(\<exists>g. build_gather_index (length inputs) (map it_position inputs) (map it_idiom_len inputs)
               = Inr g
            \<and> gather_rows_ok (map it_position inputs) (map it_idiom_len inputs) g
            \<and> (\<forall>b. collate_fn inputs = Inr b \<longrightarrow> b_gather_index b = g)
            \<and> (tensor_2d (map it_options inputs) \<noteq> Inl ValueError \<longrightarrow>
                 (\<exists>b. collate_fn inputs = Inr b)))
       \<and> (\<exists>g gm.
              build_gather_index (length minputs) (map (\<lambda>x. fst (mi_position x)) minputs)
                (map mi_idiom_len minputs) = Inr g
            \<and> build_gather_index (length minputs) (map (\<lambda>x. snd (mi_position x)) minputs)
                (map mi_idiom_len minputs) = Inr gm
            \<and> gather_rows_ok (map (\<lambda>x. fst (mi_position x)) minputs) (map mi_idiom_len minputs) g
            \<and> gather_rows_ok (map (\<lambda>x. snd (mi_position x)) minputs) (map mi_idiom_len minputs) gm
            \<and> (\<forall>b. collate_fn_masked minputs = Inr b \<longrightarrow> mb_gather_index b = (g, gm)))"
proof (intro conjI)
  from build_gather_index_ok [of "map it_idiom_len inputs" "map it_position inputs"] assms(1)
  obtain g where g: "build_gather_index (length inputs) (map it_position inputs)
                       (map it_idiom_len inputs) = Inr g"
    "gather_rows_ok (map it_position inputs) (map it_idiom_len inputs) g" by auto
  have same: "\<forall>b. collate_fn inputs = Inr b \<longrightarrow> b_gather_index b = g"
    using collate_fn_Inr(3) g(1) by fastforce
  have ret: "tensor_2d (map it_options inputs) \<noteq> Inl ValueError \<longrightarrow> (\<exists>b. collate_fn inputs = Inr b)"
    using collate_fn_returns [OF assms(1)] by blast
  from g same ret
  show "\<exists>g. build_gather_index (length inputs) (map it_position inputs) (map it_idiom_len inputs)
               = Inr g
            \<and> gather_rows_ok (map it_position inputs) (map it_idiom_len inputs) g
            \<and> (\<forall>b. collate_fn inputs = Inr b \<longrightarrow> b_gather_index b = g)
            \<and> (tensor_2d (map it_options inputs) \<noteq> Inl ValueError \<longrightarrow>
                 (\<exists>b. collate_fn inputs = Inr b))"
    by blast
next
  let ?p0 = "map (\<lambda>x. fst (mi_position x)) minputs"
  let ?p1 = "map (\<lambda>x. snd (mi_position x)) minputs"
  let ?w = "map mi_idiom_len minputs"
  from build_gather_index_ok [of ?w ?p0] assms(2)
  obtain g where g: "build_gather_index (length minputs) ?p0 ?w = Inr g"
    "gather_rows_ok ?p0 ?w g" by auto
  from build_gather_index_ok [of ?w ?p1] assms(2)
  obtain gm where gm: "build_gather_index (length minputs) ?p1 ?w = Inr gm"
    "gather_rows_ok ?p1 ?w gm" by auto
  have same: "\<forall>b. collate_fn_masked minputs = Inr b \<longrightarrow> mb_gather_index b = (g, gm)"
  proof (intro allI impI)
    fix b assume b: "collate_fn_masked minputs = Inr b"
    from collate_fn_masked_Inr(2) [OF b] g(1) have "fst (mb_gather_index b) = g" by simp
    moreover from collate_fn_masked_Inr(3) [OF b] gm(1) have "snd (mb_gather_index b) = gm" by simp
    ultimately show "mb_gather_index b = (g, gm)" by (simp add: prod_eq_iff)
  qed
  from g gm same
  show "\<exists>g gm.
              build_gather_index (length minputs) ?p0 ?w = Inr g
            \<and> build_gather_index (length minputs) ?p1 ?w = Inr gm
            \<and> gather_rows_ok ?p0 ?w g
            \<and> gather_rows_ok ?p1 ?w gm
            \<and> (\<forall>b. collate_fn_masked minputs = Inr b \<longrightarrow> mb_gather_index b = (g, gm))"
    by blast
qed

theorem collate_fn_gather_index_witness:
  "[item_a, item_b] \<noteq> [] \<and> [masked_item_a, masked_item_b] \<noteq> []
   \<and> tensor_2d (map it_options [item_a, item_b]) \<noteq> Inl ValueError
   \<and> (\<exists>b. collate_fn [item_a, item_b] = Inr b \<and> b_gather_index b = [[2, 3, 2], [1, 2, 3]]
         \<and> gather_rows_ok [2, 1] [2, 3] (b_gather_index b))
   \<and> (\<exists>b. collate_fn_masked [masked_item_a, masked_item_b] = Inr b
         \<and> mb_gather_index b = ([[1, 2, 2], [1, 2, 3]], [[2, 3, 2], [1, 2, 3]])
         \<and> gather_rows_ok [1, 1] [2, 3] (fst (mb_gather_index b))
         \<and> gather_rows_ok [2, 1] [2, 3] (snd (mb_gather_index b)))"
proof -
  have ne: "[item_a, item_b] \<noteq> []" and mne: "[masked_item_a, masked_item_b] \<noteq> []"
    by simp_all
  have rect: "tensor_2d (map it_options [item_a, item_b]) \<noteq> Inl ValueError"
    by (simp add: tensor_2d_def item_a_def item_b_def)
  have pos: "map it_position [item_a, item_b] = [2, 1]"
    and wid: "map it_idiom_len [item_a, item_b] = [2, 3]"
    by (simp_all add: item_a_def item_b_def)
  have mpos0: "map (\<lambda>x. fst (mi_position x)) [masked_item_a, masked_item_b] = [1, 1]"
    and mpos1: "map (\<lambda>x. snd (mi_position x)) [masked_item_a, masked_item_b] = [2, 1]"
    and mwid: "map mi_idiom_len [masked_item_a, masked_item_b] = [2, 3]"
    by (simp_all add: masked_item_a_def masked_item_b_def)
  from collate_fn_gather_index [OF ne mne]
  obtain g g0 g1 where
    g: "gather_rows_ok (map it_position [item_a, item_b]) (map it_idiom_len [item_a, item_b]) g"
      "\<forall>b. collate_fn [item_a, item_b] = Inr b \<longrightarrow> b_gather_index b = g"
    and m: "gather_rows_ok (map (\<lambda>x. fst (mi_position x)) [masked_item_a, masked_item_b])
              (map mi_idiom_len [masked_item_a, masked_item_b]) g0"
      "gather_rows_ok (map (\<lambda>x. snd (mi_position x)) [masked_item_a, masked_item_b])
              (map mi_idiom_len [masked_item_a, masked_item_b]) g1"
      "\<forall>b. collate_fn_masked [masked_item_a, masked_item_b] = Inr b
           \<longrightarrow> mb_gather_index b = (g0, g1)"
    by blast
  from g(2) collate_fn_example have "g = [[2, 3, 2], [1, 2, 3]]" by simp
  with g(1) have a: "gather_rows_ok [2, 1] [2, 3] [[2, 3, 2], [1, 2, 3]]"
    by (simp only: pos wid)
  from m(3) collate_fn_masked_example
  have "(g0, g1) = ([[1, 2, 2], [1, 2, 3]], [[2, 3, 2], [1, 2, 3]])" by simp
  then have "g0 = [[1, 2, 2], [1, 2, 3]]" "g1 = [[2, 3, 2], [1, 2, 3]]" by simp_all
  with m(1,2) have b: "gather_rows_ok [1, 1] [2, 3] [[1, 2, 2], [1, 2, 3]]"
    "gather_rows_ok [2, 1] [2, 3] [[2, 3, 2], [1, 2, 3]]"
    by (simp_all only: mpos0 mpos1 mwid)
  from ne mne rect a b show ?thesis
    by (simp add: collate_fn_example collate_fn_masked_example)
qed

text \<open>
  C10: in every batch the collator builds from instances whose span lies inside their own
  sequence (\<open>0 \<le> span_start_i\<close> and \<open>span_start_i + width_i \<le> len(input_ids_i)\<close>), where an
  instance with the widest span holds at least the start marker, the span and the end
  marker, every entry of the gather index, default fill included, is a valid position of
  every padded sequence of the batch.
\<close>

theorem collate_fn_gather_in_range:
  assumes "collate_fn inputs = Inr b"
    and "\<forall>x\<in>set inputs. 0 \<le> it_position x
           \<and> it_position x + int (it_idiom_len x) \<le> int (length (it_input_ids x))"
    and "\<exists>x\<in>set inputs. it_idiom_len x = Max (set (map it_idiom_len inputs))
           \<and> it_idiom_len x + 2 \<le> length (it_input_ids x)"
  shows "\<forall>seq\<in>set (b_input_ids b). \<forall>row\<in>set (b_gather_index b). \<forall>e\<in>set row.
           0 \<le> e \<and> e < int (length seq)"
proof (intro ballI)
  fix seq row e
  assume seq: "seq \<in> set (b_input_ids b)" and row: "row \<in> set (b_gather_index b)"
    and e: "e \<in> set row"
  let ?pos = "map it_position inputs" and ?wid = "map it_idiom_len inputs"
  let ?S = "Max (set (map length (map it_input_ids inputs)))"
  let ?W = "Max (set ?wid)"
  have ne: "inputs \<noteq> []" by (rule collate_fn_Inr(1) [OF assms(1)])
  then have ne': "map it_input_ids inputs \<noteq> []" by simp
  have S: "length seq = ?S"
    by (rule pad_sequence_length [OF collate_fn_Inr(2) [OF assms(1)] ne' seq])
  have len_le: "length (it_input_ids x) \<le> ?S" if "x \<in> set inputs" for x
    using that by simp
  from build_gather_index_ok [of ?wid ?pos] ne collate_fn_Inr(3) [OF assms(1)]
  have ok: "gather_rows_ok ?pos ?wid (b_gather_index b)" by auto
  from row obtain i where i: "i < length (b_gather_index b)" "row = b_gather_index b ! i"
    by (auto simp: in_set_conv_nth)
  from ok i(1) have i': "i < length inputs" by (simp add: gather_rows_ok_def)
  from ok i' have rowlen: "length row = ?W"
    and pre: "\<forall>j<?wid ! i. row ! j = ?pos ! i + int j"
    and fill: "\<forall>j. ?wid ! i \<le> j \<and> j < ?W \<longrightarrow> row ! j = int j"
    unfolding gather_rows_ok_def i(2) by simp_all
  from e obtain j where j: "j < length row" "e = row ! j" by (auto simp: in_set_conv_nth)
  let ?x = "inputs ! i"
  have x: "?x \<in> set inputs" using i' by simp
  show "0 \<le> e \<and> e < int (length seq)"
  proof (cases "j < it_idiom_len ?x")
    case True
    with pre i' have e1: "e = it_position ?x + int j" by (simp add: j(2))
    from assms(2) x have p: "0 \<le> it_position ?x"
      "it_position ?x + int (it_idiom_len ?x) \<le> int (length (it_input_ids ?x))" by blast+
    have "length (it_input_ids ?x) \<le> ?S" by (rule len_le [OF x])
    then have "length (it_input_ids ?x) \<le> length seq" by (simp only: S)
    with e1 p True show ?thesis by linarith
  next
    case False
    with fill i' j(1) rowlen have e2: "e = int j" by (simp add: j(2))
    from assms(3) obtain y where y: "y \<in> set inputs" "it_idiom_len y = ?W"
      "it_idiom_len y + 2 \<le> length (it_input_ids y)" by blast
    have "length (it_input_ids y) \<le> ?S" by (rule len_le [OF y(1)])
    then have "length (it_input_ids y) \<le> length seq" by (simp only: S)
    moreover have "j < it_idiom_len y" using j(1) rowlen y(2) by simp
    ultimately show ?thesis using e2 y(3) by linarith
  qed
qed

theorem collate_fn_gather_in_range_witness:
  "0 \<le> it_position item_a
   \<and> it_position item_a + int (it_idiom_len item_a) \<le> int (length (it_input_ids item_a))
   \<and> 0 \<le> it_position item_b
   \<and> it_position item_b + int (it_idiom_len item_b) \<le> int (length (it_input_ids item_b))
   \<and> it_idiom_len item_b = Max (set (map it_idiom_len [item_a, item_b]))
   \<and> it_idiom_len item_b + 2 \<le> length (it_input_ids item_b)
   \<and> (\<exists>b. collate_fn [item_a, item_b] = Inr b
         \<and> b_input_ids b = [[101, 11, 41, 42, 12, 102], [101, 51, 52, 53, 102, 0]]
         \<and> b_gather_index b = [[2, 3, 2], [1, 2, 3]]
         \<and> (\<forall>seq\<in>set (b_input_ids b). \<forall>row\<in>set (b_gather_index b). \<forall>e\<in>set row.
               0 \<le> e \<and> e < int (length seq)))"
proof -
  let ?b = "\<lparr>b_input_ids = [[101, 11, 41, 42, 12, 102], [101, 51, 52, 53, 102, 0]],
          b_token_type_ids = [[0, 0, 0, 0, 0, 0], [0, 0, 0, 0, 0, 0]],
          b_attention_mask = [[1, 1, 1, 1, 1, 1], [1, 1, 1, 1, 1, 0]],
          b_gather_index = [[2, 3, 2], [1, 2, 3]],
          b_positions = [2, 1],
          b_option_ids = [[7, 5, 4, 3, 2, 1, 0], [9, 8, 7, 6, 5, 4, 3]],
          b_targets = [(1, 2, 5, 1, 3), (2, - 100, - 100, - 100, 0)]\<rparr>"
  have facts: "0 \<le> it_position item_a
     \<and> it_position item_a + int (it_idiom_len item_a) \<le> int (length (it_input_ids item_a))
     \<and> 0 \<le> it_position item_b
     \<and> it_position item_b + int (it_idiom_len item_b) \<le> int (length (it_input_ids item_b))
     \<and> it_idiom_len item_b = Max (set (map it_idiom_len [item_a, item_b]))
     \<and> it_idiom_len item_b + 2 \<le> length (it_input_ids item_b)"
    by (simp add: item_a_def item_b_def)
  then have inside: "\<forall>x\<in>set [item_a, item_b]. 0 \<le> it_position x
           \<and> it_position x + int (it_idiom_len x) \<le> int (length (it_input_ids x))"
    by simp
  from facts have widest: "\<exists>x\<in>set [item_a, item_b].
           it_idiom_len x = Max (set (map it_idiom_len [item_a, item_b]))
           \<and> it_idiom_len x + 2 \<le> length (it_input_ids x)"
    by simp
  have r: "collate_fn [item_a, item_b] = Inr ?b" by (rule collate_fn_example)
  have range: "\<forall>seq\<in>set (b_input_ids ?b). \<forall>row\<in>set (b_gather_index ?b). \<forall>e\<in>set row.
           0 \<le> e \<and> e < int (length seq)"
    by (rule collate_fn_gather_in_range [OF r inside widest])
  have sel: "b_input_ids ?b = [[101, 11, 41, 42, 12, 102], [101, 51, 52, 53, 102, 0]]"
    "b_gather_index ?b = [[2, 3, 2], [1, 2, 3]]" by simp_all
  from r range sel have "\<exists>b. collate_fn [item_a, item_b] = Inr b
         \<and> b_input_ids b = [[101, 11, 41, 42, 12, 102], [101, 51, 52, 53, 102, 0]]
         \<and> b_gather_index b = [[2, 3, 2], [1, 2, 3]]
         \<and> (\<forall>seq\<in>set (b_input_ids b). \<forall>row\<in>set (b_gather_index b). \<forall>e\<in>set row.
               0 \<le> e \<and> e < int (length seq))"
    by blast
  with facts show ?thesis by blast
qed

section \<open>Properties of span pooling\<close>

lemma fold_map2_max:
  fixes v :: "('a::linorder) list"
  assumes "length v = h" and "\<forall>r\<in>set vs. length r = h"
  shows "length (fold (\<lambda>r acc. map2 max acc r) vs v) = h
       \<and> (\<forall>d<h. fold (\<lambda>r acc. map2 max acc r) vs v ! d = fold max (map (\<lambda>r. r ! d) vs) (v ! d))"
  using assms
proof (induction vs arbitrary: v)
  case Nil
  then show ?case by simp
next
  case (Cons r vs)
  let ?v = "map2 max v r"
  from Cons.prems have r: "length r = h" by simp
  with Cons.prems(1) have len: "length ?v = h" by simp
  from Cons.prems(2) have rest: "\<forall>r\<in>set vs. length r = h" by simp
  from Cons.IH [OF len rest]
  have ih: "length (fold (\<lambda>r acc. map2 max acc r) vs ?v) = h"
    "\<forall>d<h. fold (\<lambda>r acc. map2 max acc r) vs ?v ! d = fold max (map (\<lambda>r. r ! d) vs) (?v ! d)"
    by blast+
  have nth: "\<forall>d<h. ?v ! d = max (r ! d) (v ! d)"
    using r Cons.prems(1) by (simp add: max.commute)
  from ih nth show ?case by simp
qed

lemma pooled_row_length:
  fixes rows :: "('a::linorder) list list"
  assumes "rows \<noteq> []" and "\<forall>r\<in>set rows. length r = h"
  shows "length (fold (\<lambda>r acc. map2 max acc r) (tl rows) (hd rows)) = h"
proof -
  from assms(1) obtain v vs where rows: "rows = v # vs" by (cases rows) auto
  with assms(2) have v: "length v = h" and vs: "\<forall>r\<in>set vs. length r = h" by simp_all
  from fold_map2_max [OF v vs] show ?thesis by (simp add: rows)
qed

lemma pooled_row_nth:
  fixes rows :: "('a::linorder) list list"
  assumes "rows \<noteq> []" and "\<forall>r\<in>set rows. length r = h" and "d < h"
  shows "fold (\<lambda>r acc. map2 max acc r) (tl rows) (hd rows) ! d = Max ((\<lambda>r. r ! d) ` set rows)"
proof -
  from assms(1) obtain v vs where rows: "rows = v # vs" by (cases rows) auto
  with assms(2) have v: "length v = h" and vs: "\<forall>r\<in>set vs. length r = h" by simp_all
  from fold_map2_max [OF v vs] assms(3)
  have val: "fold (\<lambda>r acc. map2 max acc r) vs v ! d = fold max (map (\<lambda>r. r ! d) vs) (v ! d)"
    by blast
  have "fold max (map (\<lambda>r. r ! d) vs) (v ! d) = Max (set ((v ! d) # map (\<lambda>r. r ! d) vs))"
    by (rule Max.set_eq_fold [symmetric])
  also have "\<dots> = Max ((\<lambda>r. r ! d) ` set rows)" by (simp add: rows)
  finally show ?thesis using val by (simp add: rows)
qed

lemma gather_dim1_expand:
  assumes "shape3 n s h x" and "shape2 n w g"
    and "\<forall>b<n. \<forall>j<w. 0 \<le> g ! b ! j \<and> g ! b ! j < int s"
  shows "gather_dim1 x (expand_hidden h g) =
           Inr (map (\<lambda>b. map (\<lambda>j. map (\<lambda>d. x ! b ! nat (g ! b ! j) ! d) [0..<h]) [0..<w]) [0..<n])"
proof -
  from assms(1) have x: "length x = n" "\<forall>b<n. length (x ! b) = s"
    "\<forall>b<n. \<forall>t<s. length (x ! b ! t) = h"
    by (auto simp: shape3_def list_all_length)
  from assms(2) have g: "length g = n" "\<forall>b<n. length (g ! b) = w"
    by (auto simp: shape2_def list_all_length)
  let ?e = "expand_hidden h g"
  have e: "length ?e = n" "\<forall>b<n. length (?e ! b) = w" "\<forall>b<n. \<forall>j<w. length (?e ! b ! j) = h"
    "\<forall>b<n. \<forall>j<w. \<forall>d<h. ?e ! b ! j ! d = g ! b ! j"
    using g by (simp_all add: expand_hidden_def)
  have ok: "list_all (\<lambda>b. list_all (\<lambda>j. list_all (\<lambda>d.
               0 \<le> ?e ! b ! j ! d
             \<and> nat (?e ! b ! j ! d) < length (x ! b)
             \<and> d < length (x ! b ! nat (?e ! b ! j ! d)))
             [0..<length (?e ! b ! j)]) [0..<length (?e ! b)]) [0..<length ?e]"
    unfolding list_all_iff
  proof (intro ballI)
    fix b j d
    assume "b \<in> set [0..<length ?e]" and "j \<in> set [0..<length (?e ! b)]"
      and "d \<in> set [0..<length (?e ! b ! j)]"
    with e have b: "b < n" and j: "j < w" and d: "d < h" by auto
    with e(4) have v: "?e ! b ! j ! d = g ! b ! j" by blast
    from assms(3) b j have "0 \<le> g ! b ! j \<and> g ! b ! j < int s" by blast
    then have r: "0 \<le> g ! b ! j" "nat (g ! b ! j) < s" by linarith+
    with x b d show "0 \<le> ?e ! b ! j ! d \<and> nat (?e ! b ! j ! d) < length (x ! b)
             \<and> d < length (x ! b ! nat (?e ! b ! j ! d))"
      unfolding v by simp
  qed
  have out: "map (\<lambda>b. map (\<lambda>j. map (\<lambda>d. x ! b ! nat (?e ! b ! j ! d) ! d)
                  [0..<length (?e ! b ! j)]) [0..<length (?e ! b)]) [0..<length ?e]
           = map (\<lambda>b. map (\<lambda>j. map (\<lambda>d. x ! b ! nat (g ! b ! j) ! d) [0..<h]) [0..<w]) [0..<n]"
    using e by simp
  show ?thesis
    unfolding gather_dim1_def using ok out x(1) e(1) by simp
qed

text \<open>
  C4: for a hidden-state tensor \<open>h\<close> of shape \<open>[N, S, H]\<close> and a gather index \<open>g\<close> of shape
  \<open>[N, W]\<close> (with \<open>W \<ge> 1\<close>, as a span has at least one token) whose entries are valid
  sequence offsets, span pooling returns \<open>composed\<close> of shape \<open>[N, H]\<close> with
  \<open>composed[b][d] = max over j < W of h[b][g[b][j]][d]\<close>: an indexed gather along the sequence
  axis followed by the elementwise maximum over the \<open>W\<close> gathered positions.
\<close>

theorem span_pool_max:
  fixes encoded_context :: "('a::linorder) list list list"
  assumes "shape3 n s h encoded_context" and "shape2 n w gather_index" and "0 < w"
    and "\<forall>b<n. \<forall>j<w. 0 \<le> gather_index ! b ! j \<and> gather_index ! b ! j < int s"
  shows "\<exists>composed. span_pool h encoded_context gather_index = Inr composed
           \<and> shape2 n h composed
           \<and> (\<forall>b<n. \<forall>d<h. composed ! b ! d =
                 Max ((\<lambda>j. encoded_context ! b ! nat (gather_index ! b ! j) ! d) ` {..<w}))"
proof -
  let ?states = "map (\<lambda>b. map (\<lambda>j. map (\<lambda>d. encoded_context ! b ! nat (gather_index ! b ! j) ! d)
                    [0..<h]) [0..<w]) [0..<n]"
  let ?pool = "\<lambda>rows :: 'a list list. fold (\<lambda>r acc. map2 max acc r) (tl rows) (hd rows)"
  have gathered: "gather_dim1 encoded_context (expand_hidden h gather_index) = Inr ?states"
    by (rule gather_dim1_expand [OF assms(1,2,4)])
  have nonempty: "\<not> list_ex (\<lambda>rows. rows = []) ?states"
    using assms(3) by (auto simp: list_ex_iff)
  then have pooled: "max_dim1 ?states = Inr (map ?pool ?states)"
    by (simp add: max_dim1_def)
  have res: "span_pool h encoded_context gather_index = Inr (map ?pool ?states)"
    unfolding span_pool_def bind_err_def gathered using pooled by simp
  have rows: "\<forall>b<n. ?states ! b \<noteq> [] \<and> (\<forall>r\<in>set (?states ! b). length r = h)"
    using assms(3) by auto
  have shape: "shape2 n h (map ?pool ?states)"
    unfolding shape2_def list_all_length
  proof (intro conjI allI impI)
    show "length (map ?pool ?states) = n" by simp
  next
    fix b assume "b < length (map ?pool ?states)"
    then have b: "b < n" by simp
    from rows b have "?states ! b \<noteq> []" "\<forall>r\<in>set (?states ! b). length r = h" by blast+
    from pooled_row_length [OF this] b show "length (map ?pool ?states ! b) = h" by simp
  qed
  have vals: "\<forall>b<n. \<forall>d<h. map ?pool ?states ! b ! d =
                 Max ((\<lambda>j. encoded_context ! b ! nat (gather_index ! b ! j) ! d) ` {..<w})"
  proof (intro allI impI)
    fix b d assume b: "b < n" and d: "d < h"
    from rows b have "?states ! b \<noteq> []" "\<forall>r\<in>set (?states ! b). length r = h" by blast+
    from pooled_row_nth [OF this d] b
    have "map ?pool ?states ! b ! d = Max ((\<lambda>r. r ! d) ` set (?states ! b))" by simp
    also have "(\<lambda>r. r ! d) ` set (?states ! b)
                 = (\<lambda>j. encoded_context ! b ! nat (gather_index ! b ! j) ! d) ` {..<w}"
    proof -
      have "?states ! b = map (\<lambda>j. map (\<lambda>d. encoded_context ! b ! nat (gather_index ! b ! j) ! d)
                    [0..<h]) [0..<w]" using b by simp
      then have "(\<lambda>r. r ! d) ` set (?states ! b)
                 = (\<lambda>j. map (\<lambda>d. encoded_context ! b ! nat (gather_index ! b ! j) ! d) [0..<h] ! d)
                     ` {0..<w}"
        by (simp add: image_image)
      also have "\<dots> = (\<lambda>j. encoded_context ! b ! nat (gather_index ! b ! j) ! d) ` {..<w}"
        using d by (simp add: atLeast0LessThan)
      finally show ?thesis .
    qed
    finally show "map ?pool ?states ! b ! d =
                 Max ((\<lambda>j. encoded_context ! b ! nat (gather_index ! b ! j) ! d) ` {..<w})" .
  qed
  from res shape vals show ?thesis by blast
qed

lemma span_pool_example: "span_pool 2 hidden0 [[0, 2]] = Inr [[1, 7]]"
  by code_simp

theorem span_pool_max_witness:
  "shape3 1 3 2 hidden0 \<and> shape2 1 2 [[0, 2 :: int]] \<and> (0::nat) < 2
   \<and> 0 \<le> [[0, 2 :: int]] ! 0 ! 0 \<and> [[0, 2 :: int]] ! 0 ! 0 < int 3
   \<and> 0 \<le> [[0, 2 :: int]] ! 0 ! 1 \<and> [[0, 2 :: int]] ! 0 ! 1 < int 3
   \<and> span_pool 2 hidden0 [[0, 2]] = Inr [[1, 7]]
   \<and> [[1, 7 :: int]] ! 0 ! 1 = Max ((\<lambda>j. hidden0 ! 0 ! nat ([[0, 2]] ! 0 ! j) ! 1) ` {..<2})"
proof -
  have s3: "shape3 1 3 2 hidden0" by (simp add: shape3_def hidden0_def)
  have s2: "shape2 1 2 [[0, 2 :: int]]" by (simp add: shape2_def)
  have w: "(0::nat) < 2" by simp
  have v: "\<forall>b<1. \<forall>j<2. 0 \<le> [[0, 2 :: int]] ! b ! j \<and> [[0, 2 :: int]] ! b ! j < int 3"
    by (auto simp: less_Suc_eq numeral_2_eq_2)
  from span_pool_max [OF s3 s2 w v]
  obtain composed where c: "span_pool 2 hidden0 [[0, 2]] = Inr composed"
    "\<forall>b<1. \<forall>d<2. composed ! b ! d = Max ((\<lambda>j. hidden0 ! b ! nat ([[0, 2]] ! b ! j) ! d) ` {..<2})"
    by blast
  from c(1) span_pool_example have eq: "composed = [[1, 7]]" by simp
  have "composed ! 0 ! 1 = Max ((\<lambda>j. hidden0 ! 0 ! nat ([[0, 2]] ! 0 ! j) ! 1) ` {..<2})"
    by (rule c(2) [rule_format]) simp_all
  then have "[[1, 7 :: int]] ! 0 ! 1 = Max ((\<lambda>j. hidden0 ! 0 ! nat ([[0, 2]] ! 0 ! j) ! 1) ` {..<2})"
    by (simp only: eq)
  moreover have "0 \<le> [[0, 2 :: int]] ! 0 ! 0 \<and> [[0, 2 :: int]] ! 0 ! 0 < int 3
      \<and> 0 \<le> [[0, 2 :: int]] ! 0 ! 1 \<and> [[0, 2 :: int]] ! 0 ! 1 < int 3" by simp
  ultimately show ?thesis using s3 s2 w span_pool_example by blast
qed

section \<open>Properties of the latent-vocabulary scorer\<close>

lemma sum_list_map2_nth:
  fixes f :: "'a \<Rightarrow> 'b \<Rightarrow> real"
  assumes "length xs = n" and "length ys = n"
  shows "sum_list (map2 f xs ys) = (\<Sum>i<n. f (xs ! i) (ys ! i))"
proof -
  have "sum_list (map2 f xs ys) = (\<Sum>i = 0..<length (map2 f xs ys). map2 f xs ys ! i)"
    by (rule sum_list_sum_nth)
  also have "\<dots> = (\<Sum>i = 0..<n. f (xs ! i) (ys ! i))"
    using assms by (intro sum.cong) simp_all
  finally show ?thesis by (simp add: atLeast0LessThan)
qed

lemma sum_list_map_nth:
  fixes f :: "'a \<Rightarrow> real"
  shows "sum_list (map f xs) = (\<Sum>i<length xs. f (xs ! i))"
proof -
  have "sum_list (map f xs) = (\<Sum>i = 0..<length (map f xs). map f xs ! i)"
    by (rule sum_list_sum_nth)
  also have "\<dots> = (\<Sum>i = 0..<length xs. f (xs ! i))"
    by (intro sum.cong) simp_all
  finally show ?thesis by (simp add: atLeast0LessThan)
qed

lemma embedding_rows:
  assumes "list_all (\<lambda>c. 0 \<le> c \<and> nat c < length weight) ids"
  shows "embedding weight ids = Inr (map (\<lambda>c. weight ! nat c) ids)"
  using assms by (simp add: embedding_def)

text \<open>
  C3: for every pooled blank vector \<open>b\<close> (a row of \<open>blank_states\<close>) and the embedding table
  restricted to the enlarged candidate set (\<open>E[k] = weight[enlarged_candidates[k]]\<close>), the
  scorer returns logits with \<open>logits[k] = b \<cdot> E[k]\<close> and a state vector equal to the sum
  over \<open>k\<close> of \<open>softmax(logits)[k] * E[k]\<close>, in exact real arithmetic.
\<close>

theorem vocab_scores:
  assumes "list_all (\<lambda>row. length row = h) weight"
    and "list_all (\<lambda>c. 0 \<le> c \<and> nat c < length weight) enlarged_candidates"
    and "list_all (\<lambda>b. length b = h) blank_states"
  shows "\<exists>logits state.
           vocab h weight enlarged_candidates blank_states = Inr (logits, state)
         \<and> shape2 (length blank_states) (length enlarged_candidates) logits
         \<and> shape2 (length blank_states) h state
         \<and> (\<forall>b<length blank_states.
               (\<forall>k<length enlarged_candidates.
                  logits ! b ! k =
                    (\<Sum>d<h. blank_states ! b ! d * weight ! nat (enlarged_candidates ! k) ! d))
             \<and> (\<forall>d<h.
                  state ! b ! d =
                    (\<Sum>k<length enlarged_candidates.
                       exp (logits ! b ! k) / (\<Sum>j<length enlarged_candidates. exp (logits ! b ! j))
                         * weight ! nat (enlarged_candidates ! k) ! d)))"
proof -
  let ?K = "length enlarged_candidates" and ?B = "length blank_states"
  let ?E = "map (\<lambda>c. weight ! nat c) enlarged_candidates"
  let ?logits = "map (\<lambda>xb. map (\<lambda>yn. sum_list (map2 (*) xb yn)) ?E) blank_states"
  let ?p = "map softmax ?logits"
  let ?state = "map (\<lambda>pb. map (\<lambda>d. sum_list (map2 (\<lambda>pk yn. pk * yn ! d) pb ?E)) [0..<h]) ?p"
  have E: "embedding weight enlarged_candidates = Inr ?E"
    by (rule embedding_rows [OF assms(2)])
  have Elen: "\<forall>k<?K. length (?E ! k) = h"
    using assms(1,2) by (simp add: list_all_length)
  have Eset: "\<forall>yn\<in>set ?E. length yn = h"
    using assms(1,2) by (auto simp: list_all_iff)
  have blen: "\<forall>xb\<in>set blank_states. length xb = h"
    using assms(3) by (simp add: list_all_iff)
  have L: "einsum_bd_nd_bn blank_states ?E = Inr ?logits"
    using Eset blen by (simp add: einsum_bd_nd_bn_def list_all_iff)
  have S: "einsum_bn_nd_bd h ?p ?E = Inr ?state"
    using Eset by (simp add: einsum_bn_nd_bd_def list_all_iff softmax_def)
  have res: "vocab h weight enlarged_candidates blank_states = Inr (?logits, ?state)"
    unfolding vocab_def bind_err_def E using L S by simp
  have sh1: "shape2 ?B ?K ?logits" by (simp add: shape2_def list_all_iff)
  have sh2: "shape2 ?B h ?state" by (simp add: shape2_def list_all_iff)
  have lval: "\<forall>b<?B. \<forall>k<?K. ?logits ! b ! k =
                (\<Sum>d<h. blank_states ! b ! d * weight ! nat (enlarged_candidates ! k) ! d)"
  proof (intro allI impI)
    fix b k assume b: "b < ?B" and k: "k < ?K"
    from b blen have xb: "length (blank_states ! b) = h" by simp
    from k Elen have yk: "length (?E ! k) = h" by blast
    have "?logits ! b ! k = sum_list (map2 (*) (blank_states ! b) (?E ! k))"
      using b k by simp
    also have "\<dots> = (\<Sum>d<h. blank_states ! b ! d * (?E ! k) ! d)"
      by (rule sum_list_map2_nth [OF xb yk])
    also have "\<dots> = (\<Sum>d<h. blank_states ! b ! d * weight ! nat (enlarged_candidates ! k) ! d)"
      using k by simp
    finally show "?logits ! b ! k =
                (\<Sum>d<h. blank_states ! b ! d * weight ! nat (enlarged_candidates ! k) ! d)" .
  qed
  have sval: "\<forall>b<?B. \<forall>d<h. ?state ! b ! d =
                (\<Sum>k<?K. exp (?logits ! b ! k) / (\<Sum>j<?K. exp (?logits ! b ! j))
                         * weight ! nat (enlarged_candidates ! k) ! d)"
  proof (intro allI impI)
    fix b d assume b: "b < ?B" and d: "d < h"
    let ?l = "?logits ! b"
    have ll: "length ?l = ?K" using b by simp
    have pl: "length (softmax ?l) = ?K" using ll by (simp add: softmax_def)
    have El: "length ?E = ?K" by simp
    have den: "sum_list (map exp ?l) = (\<Sum>j<?K. exp (?l ! j))"
      using sum_list_map_nth [of exp ?l] ll by simp
    have pk: "\<forall>k<?K. softmax ?l ! k = exp (?l ! k) / (\<Sum>j<?K. exp (?l ! j))"
      using ll den by (simp add: softmax_def)
    have "?state ! b ! d = sum_list (map2 (\<lambda>pk yn. pk * yn ! d) (softmax ?l) ?E)"
      using b d by simp
    also have "\<dots> = (\<Sum>k<?K. softmax ?l ! k * (?E ! k) ! d)"
      by (rule sum_list_map2_nth [OF pl El])
    also have "\<dots> = (\<Sum>k<?K. exp (?l ! k) / (\<Sum>j<?K. exp (?l ! j))
                         * weight ! nat (enlarged_candidates ! k) ! d)"
      using pk by (intro sum.cong) simp_all
    finally show "?state ! b ! d =
                (\<Sum>k<?K. exp (?l ! k) / (\<Sum>j<?K. exp (?l ! j))
                         * weight ! nat (enlarged_candidates ! k) ! d)" .
  qed
  from res sh1 sh2 lval sval show ?thesis by blast
qed

theorem vocab_scores_witness:
  "list_all (\<lambda>row. length row = 2) weight0
   \<and> list_all (\<lambda>c. 0 \<le> c \<and> nat c < length weight0) [0, 2]
   \<and> list_all (\<lambda>b. length b = 2) [[1, 2 :: real]]
   \<and> (\<exists>logits state. vocab 2 weight0 [0, 2] [[1, 2]] = Inr (logits, state)
         \<and> logits ! 0 ! 0 = 1 \<and> logits ! 0 ! 1 = 3
         \<and> state ! 0 ! 1 = exp 3 / (exp 1 + exp 3))"
proof -
  have a: "list_all (\<lambda>row. length row = 2) weight0" by (simp add: weight0_def)
  have b: "list_all (\<lambda>c. 0 \<le> c \<and> nat c < length weight0) [0, 2]" by (simp add: weight0_def)
  have c: "list_all (\<lambda>b. length b = 2) [[1, 2 :: real]]" by simp
  from vocab_scores [OF a b c]
  obtain logits state where r: "vocab 2 weight0 [0, 2] [[1, 2]] = Inr (logits, state)"
    and v: "\<forall>b<length [[1, 2 :: real]].
               (\<forall>k<length [0, 2 :: int].
                  logits ! b ! k =
                    (\<Sum>d<2. [[1, 2]] ! b ! d * weight0 ! nat ([0, 2] ! k) ! d))
             \<and> (\<forall>d<2.
                  state ! b ! d =
                    (\<Sum>k<length [0, 2 :: int].
                       exp (logits ! b ! k) / (\<Sum>j<length [0, 2 :: int]. exp (logits ! b ! j))
                         * weight0 ! nat ([0, 2] ! k) ! d))"
    by blast
  have two: "{..<2::nat} = {0, 1}" by auto
  have len: "length [0, 2 :: int] = 2" by simp
  from v have l: "\<forall>k<2. logits ! 0 ! k = (\<Sum>d<2. [[1, 2 :: real]] ! 0 ! d * weight0 ! nat ([0, 2] ! k) ! d)"
    and st: "\<forall>d<2. state ! 0 ! d =
               (\<Sum>k<2. exp (logits ! 0 ! k) / (\<Sum>j<2. exp (logits ! 0 ! j))
                  * weight0 ! nat ([0, 2] ! k) ! d)"
    unfolding len by simp_all
  have "logits ! 0 ! 0 = (\<Sum>d<2. [[1, 2 :: real]] ! 0 ! d * weight0 ! nat ([0, 2] ! 0) ! d)"
    by (rule l [rule_format]) simp
  then have l0: "logits ! 0 ! 0 = 1" by (simp add: two weight0_def)
  have "logits ! 0 ! 1 = (\<Sum>d<2. [[1, 2 :: real]] ! 0 ! d * weight0 ! nat ([0, 2] ! 1) ! d)"
    by (rule l [rule_format]) simp
  then have l1: "logits ! 0 ! 1 = 3" by (simp add: two weight0_def)
  have "state ! 0 ! 1 =
               (\<Sum>k<2. exp (logits ! 0 ! k) / (\<Sum>j<2. exp (logits ! 0 ! j))
                  * weight0 ! nat ([0, 2] ! k) ! 1)"
    by (rule st [rule_format]) simp
  then have s1: "state ! 0 ! 1 = exp 3 / (exp 1 + exp 3)"
    using l0 l1 by (simp add: two weight0_def)
  from a b c r l0 l1 s1 show ?thesis by blast
qed

end
